theory Spec2Isabelle
  imports Complex_Main
begin

section \<open>Data model\<close>

text \<open>
  A shallow embedding of \<^verbatim>\<open>importance/sage_sklearn.py\<close>. Arrays of floats are lists of
  reals (a matrix is a list of rows). A \<^verbatim>\<open>nan\<close> that comes from the mean of an empty array,
  a division by zero or the root of a negative number is \<open>None\<close>; an overflow to
  \<^verbatim>\<open>inf\<close> is not represented. The subtraction that forms the scores rounds as float64
  subtraction does (\<open>float64_sub\<close>); the averages are taken over the reals. A minibatch
  is a pair of the inputs \<open>x\<close> (one row per example) and the labels \<open>y\<close>. Randomness
  (\<^verbatim>\<open>torch.randperm\<close>, a stochastic imputation, the coalition sampler) is threaded as
  an explicit generator state \<open>'g\<close>.
\<close>

type_synonym vec = "real list"
type_synonym matrix = "real list list"
type_synonym batch = "matrix \<times> vec"

datatype error = AssertionError | ValueError | AttributeError

text \<open>
  The imputation module, as the estimators see it: the two \<^verbatim>\<open>isinstance\<close> tests and
  \<^verbatim>\<open>impute(x, S)\<close>.
\<close>

record 'g imputation_module =
  is_module :: bool
  is_reference :: bool
  impute :: "'g \<Rightarrow> matrix \<Rightarrow> matrix \<Rightarrow> matrix \<times> 'g"

text \<open>
  \<^verbatim>\<open>utils.ImportanceTracker\<close>: the constructor, \<^verbatim>\<open>update\<close>, and the attributes
  \<^verbatim>\<open>var\<close> and \<^verbatim>\<open>scores\<close>. The class is not part of this file of the repository, so it is
  a parameter: \<open>'obs\<close> is what \<^verbatim>\<open>update\<close> receives (a score matrix in the permutation
  estimator, a score vector in the iterated one), \<open>'v\<close> the type of \<^verbatim>\<open>var\<close>.
\<close>

record ('tr, 'obs, 'v, 's) importance_tracker =
  tracker_new :: 'tr
  tracker_update :: "'tr \<Rightarrow> 'obs \<Rightarrow> 'tr"
  tracker_var :: "'tr \<Rightarrow> 'v"
  tracker_scores :: "'tr \<Rightarrow> 's"

section \<open>Array operations\<close>

text \<open>\<^verbatim>\<open>t.repeat(m, 1)\<close>: the rows of \<open>t\<close>, tiled \<open>m\<close> times.\<close>

definition repeat_rows :: "nat \<Rightarrow> 'a list \<Rightarrow> 'a list" where
  "repeat_rows m t = concat (replicate m t)"

definition zeros :: "nat \<Rightarrow> nat \<Rightarrow> matrix" where
  "zeros n d = replicate n (replicate d 0)"

text \<open>
  \<^verbatim>\<open>A[rows, cols] = vals\<close> with index arrays: the entries are assigned one after the
  other, in place. numpy raises IndexError on an index out of range, where a list update
  does nothing; the column indices the estimators use are entries of a permutation of
  \<^verbatim>\<open>range(input_size)\<close>, or a feature index below \<^verbatim>\<open>input_size\<close>.
\<close>

definition assign_at :: "'a list list \<Rightarrow> nat list \<Rightarrow> nat list \<Rightarrow> 'a list \<Rightarrow> 'a list list" where
  "assign_at A rows cols vals =
     fold (\<lambda>k B. B[rows ! k := (B ! (rows ! k))[cols ! k := vals ! k]]) [0..<length rows] A"

text \<open>\<^verbatim>\<open>S[:, ind] = 1.0\<close>\<close>

definition set_column :: "nat \<Rightarrow> matrix \<Rightarrow> matrix" where
  "set_column ind S = map (\<lambda>row. row[ind := 1]) S"

definition vec_add :: "vec \<Rightarrow> vec \<Rightarrow> vec" where
  "vec_add u v = map2 (+) u v"

text \<open>
  The difference of two numpy float64 arrays, \<^verbatim>\<open>prev_loss - loss\<close> and
  \<^verbatim>\<open>loss_discluded - loss_included\<close>: each entry is the exact difference rounded to the
  nearest number with 53 significant bits, ties to the even one (IEEE 754 binary64).
  The values are reals, so the range of the exponent is not bounded: an overflow to
  \<^verbatim>\<open>inf\<close> is not represented.
\<close>

definition round_half_even :: "real \<Rightarrow> int" where
  "round_half_even x =
     (let f = \<lfloor>x\<rfloor> in
      if x - of_int f < 1 / 2 then f
      else if 1 / 2 < x - of_int f then f + 1
      else if even f then f else f + 1)"

definition float64_round :: "real \<Rightarrow> real" where
  "float64_round x =
     (if x = 0 then 0
      else let e = \<lfloor>log 2 \<bar>x\<bar>\<rfloor> - 52
           in of_int (round_half_even (x / 2 powr of_int e)) * 2 powr of_int e)"

definition float64_sub :: "real \<Rightarrow> real \<Rightarrow> real" where
  "float64_sub a b = float64_round (a - b)"

definition vec_sub :: "vec \<Rightarrow> vec \<Rightarrow> vec" where
  "vec_sub u v = map2 float64_sub u v"

definition mat_add :: "matrix \<Rightarrow> matrix \<Rightarrow> matrix" where
  "mat_add A B = map2 vec_add A B"

text \<open>
  \<^verbatim>\<open>y_hat.reshape((m_samples, -1, *y_hat.shape[1:]))\<close>: the rows of \<open>y_hat\<close> split into
  \<open>m_samples\<close> consecutive blocks. numpy raises ValueError when \<open>m_samples\<close> is 0 or does
  not divide the number of rows.
\<close>

definition reshape_replicates :: "nat \<Rightarrow> matrix \<Rightarrow> error + matrix list" where
  "reshape_replicates m y_hat =
     (if m = 0 \<or> length y_hat mod m \<noteq> 0 then Inl ValueError
      else Inr (map (\<lambda>r. take (length y_hat div m) (drop (r * (length y_hat div m)) y_hat))
                  [0..<m]))"

text \<open>\<^verbatim>\<open>np.mean(blocks, axis=0)\<close>: the elementwise sum of the blocks over their number.\<close>

definition mean_axis0 :: "matrix list \<Rightarrow> matrix" where
  "mean_axis0 Ms =
     (case Ms of [] \<Rightarrow> []
      | M # rest \<Rightarrow> map (map (\<lambda>v. v / real (length Ms))) (foldl mat_add M rest))"

definition replicate_mean :: "nat \<Rightarrow> matrix \<Rightarrow> error + matrix" where
  "replicate_mean m y_hat =
     (case reshape_replicates m y_hat of Inl e \<Rightarrow> Inl e | Inr Ms \<Rightarrow> Inr (mean_axis0 Ms))"

section \<open>One model evaluation under a mask\<close>

text \<open>
  The four lines both estimators repeat at every evaluation:
  \<^verbatim>\<open>y_hat = model.predict(imputation_module.impute(x, S).cpu().numpy())\<close>,
  \<^verbatim>\<open>y_hat = np.mean(y_hat.reshape((m_samples, -1, *y_hat.shape[1:])), axis=0)\<close>,
  \<^verbatim>\<open>loss_fn(y_hat, y)\<close>. Here \<open>x\<close> and \<open>S\<close> are already tiled \<open>m_samples\<close> times and
  \<open>y\<close> holds the labels of the original batch.
\<close>

definition imputed_loss ::
  "(matrix \<Rightarrow> matrix) \<Rightarrow> ('g, 'z) imputation_module_scheme \<Rightarrow> (matrix \<Rightarrow> vec \<Rightarrow> vec) \<Rightarrow>
   nat \<Rightarrow> matrix \<Rightarrow> matrix \<Rightarrow> vec \<Rightarrow> 'g \<Rightarrow> error + (vec \<times> 'g)" where
  "imputed_loss predict imp loss_fn m_samples x S y g =
     (case impute imp g x S of (xi, g') \<Rightarrow>
        (case replicate_mean m_samples (predict xi) of
           Inl e \<Rightarrow> Inl e
         | Inr y_hat \<Rightarrow> Inr (loss_fn y_hat y, g')))"

section \<open>\<^verbatim>\<open>estimate_total\<close>\<close>

text \<open>
  Floats that may be \<^verbatim>\<open>nan\<close>: \<open>None\<close> is \<^verbatim>\<open>nan\<close>. \<^verbatim>\<open>np.mean\<close> of an empty array is
  \<^verbatim>\<open>nan\<close> (numpy warns and does not raise), and so is every arithmetic result with a
  \<^verbatim>\<open>nan\<close> operand.
\<close>

definition np_mean :: "vec \<Rightarrow> real option" where
  "np_mean v = (if v = [] then None else Some (sum_list v / real (length v)))"

text \<open>\<^verbatim>\<open>np.mean(pred, axis=0, keepdims=True)\<close>: the mean row; \<^verbatim>\<open>nan\<close> for no rows.\<close>

definition col_means :: "matrix \<Rightarrow> vec option" where
  "col_means pred =
     (case pred of [] \<Rightarrow> None
      | r # rs \<Rightarrow> Some (map (\<lambda>v. v / real (length pred)) (foldl vec_add r rs)))"

text \<open>
  \<^verbatim>\<open>(N * old + n * batch_value) / (N + n)\<close> on scalars. With \<open>N + n = 0\<close> the numpy
  division is by zero and gives \<^verbatim>\<open>nan\<close>.
\<close>

definition update_mean :: "nat \<Rightarrow> real option \<Rightarrow> nat \<Rightarrow> real option \<Rightarrow> real option" where
  "update_mean N old n batch_value =
     (case old of None \<Rightarrow> None
      | Some a \<Rightarrow>
          (case batch_value of None \<Rightarrow> None
           | Some b \<Rightarrow>
               if N + n = 0 then None
               else Some ((real N * a + real n * b) / real (N + n))))"

text \<open>
  \<^verbatim>\<open>marginal_pred\<close> starts as the Python integer 0, which broadcasts against the mean row
  of the first batch, and is a row afterwards (\<open>NanRow\<close>: a row of \<^verbatim>\<open>nan\<close>). The rows
  of all batches have the same width for a model with a fixed number of outputs; numpy
  raises on rows of different widths, which \<open>map2\<close> would cut to the shorter.
\<close>

datatype pred_acc = PyZero | Row vec | NanRow

definition update_marginal :: "nat \<Rightarrow> pred_acc \<Rightarrow> nat \<Rightarrow> vec option \<Rightarrow> pred_acc" where
  "update_marginal N old n batch_value =
     (case batch_value of None \<Rightarrow> NanRow
      | Some b \<Rightarrow>
          if N + n = 0 then NanRow
          else (case old of
                  PyZero \<Rightarrow> Row (map (\<lambda>bv. (real N * 0 + real n * bv) / real (N + n)) b)
                | Row a \<Rightarrow> Row (map2 (\<lambda>av bv. (real N * av + real n * bv) / real (N + n)) a b)
                | NanRow \<Rightarrow> NanRow))"

record total_state =
  ts_N :: nat
  ts_mean_loss :: "real option"
  ts_marginal_pred :: pred_acc

definition pass1_init :: total_state where
  "pass1_init = \<lparr>ts_N = 0, ts_mean_loss = Some 0, ts_marginal_pred = PyZero\<rparr>"

text \<open>The body of the first loop (lines 17 to 24).\<close>

definition pass1_step ::
  "(matrix \<Rightarrow> matrix) \<Rightarrow> (matrix \<Rightarrow> vec \<Rightarrow> vec) \<Rightarrow> total_state \<Rightarrow> batch \<Rightarrow> total_state" where
  "pass1_step predict loss_fn st b =
     (case b of (x, y) \<Rightarrow>
        let n = length x;
            pred = predict x;
            loss = loss_fn pred y
        in \<lparr>ts_N = ts_N st + n,
            ts_mean_loss = update_mean (ts_N st) (ts_mean_loss st) n (np_mean loss),
            ts_marginal_pred =
              update_marginal (ts_N st) (ts_marginal_pred st) n (col_means pred)\<rparr>)"

text \<open>
  The second loop (lines 29 to 34). \<^verbatim>\<open>marginal_pred.repeat(len(y), 0)\<close> is an
  AttributeError on the integer 0; on a row of \<^verbatim>\<open>nan\<close> the loss is \<^verbatim>\<open>nan\<close>.
\<close>

fun pass2 ::
  "(matrix \<Rightarrow> vec \<Rightarrow> vec) \<Rightarrow> pred_acc \<Rightarrow> nat \<Rightarrow> real option \<Rightarrow> batch list \<Rightarrow> error + real option" where
  "pass2 loss_fn marginal_pred N marginal_loss [] = Inr marginal_loss"
| "pass2 loss_fn marginal_pred N marginal_loss (b # bs) =
     (let n = length (fst b) in
      case marginal_pred of
        PyZero \<Rightarrow> Inl AttributeError
      | NanRow \<Rightarrow> pass2 loss_fn marginal_pred (N + n) None bs
      | Row a \<Rightarrow>
          pass2 loss_fn marginal_pred (N + n)
            (update_mean N marginal_loss n
               (np_mean (loss_fn (replicate (length (snd b)) a) (snd b)))) bs)"

definition float_sub :: "real option \<Rightarrow> real option \<Rightarrow> real option" where
  "float_sub a b =
     (case a of None \<Rightarrow> None | Some u \<Rightarrow> (case b of None \<Rightarrow> None | Some v \<Rightarrow> Some (u - v)))"

text \<open>
  \<^verbatim>\<open>estimate_total(model, dataset, batch_size, loss_fn)\<close>; \<open>batches\<close> is what
  \<^verbatim>\<open>DataLoader(dataset, batch_size=batch_size)\<close> yields, the same on both passes.
\<close>

definition estimate_total ::
  "(matrix \<Rightarrow> matrix) \<Rightarrow> (matrix \<Rightarrow> vec \<Rightarrow> vec) \<Rightarrow> batch list \<Rightarrow> error + real option" where
  "estimate_total predict loss_fn batches =
     (let st = foldl (pass1_step predict loss_fn) pass1_init batches in
      case pass2 loss_fn (ts_marginal_pred st) 0 (Some 0) batches of
        Inl e \<Rightarrow> Inl e
      | Inr marginal_loss \<Rightarrow> Inr (float_sub marginal_loss (ts_mean_loss st)))"







subsection \<open>The total, as the specification words it\<close>

text \<open>
  The size-weighted incremental rule \<open>new = (N * old + n * batch_value) / (N + n)\<close> over a
  stream of pairs of a batch size and a batch value, on scalars and on rows; the mean of
  a vector and the mean row of a matrix with \<open>k\<close> columns; and the total: the running
  mean loss of predicting the dataset-wide mean prediction for every example, minus the
  running mean loss of the model's predictions. These follow the specification's words
  and are compared with \<open>estimate_total\<close> below.
\<close>

fun spec_running_mean :: "(nat \<times> real) list \<Rightarrow> nat \<Rightarrow> real \<Rightarrow> real" where
  "spec_running_mean [] N old = old"
| "spec_running_mean ((n, v) # rest) N old =
     spec_running_mean rest (N + n) ((real N * old + real n * v) / real (N + n))"

fun spec_running_mean_row :: "(nat \<times> vec) list \<Rightarrow> nat \<Rightarrow> vec \<Rightarrow> vec" where
  "spec_running_mean_row [] N old = old"
| "spec_running_mean_row ((n, v) # rest) N old =
     spec_running_mean_row rest (N + n)
       (map2 (\<lambda>a b. (real N * a + real n * b) / real (N + n)) old v)"

definition spec_mean :: "vec \<Rightarrow> real" where
  "spec_mean v = sum_list v / real (length v)"

definition spec_mean_row :: "nat \<Rightarrow> matrix \<Rightarrow> vec" where
  "spec_mean_row k pred = map (\<lambda>c. (\<Sum>row\<leftarrow>pred. row ! c) / real (length pred)) [0..<k]"

definition spec_mean_loss :: "(matrix \<Rightarrow> matrix) \<Rightarrow> (matrix \<Rightarrow> vec \<Rightarrow> vec) \<Rightarrow> batch list \<Rightarrow> real" where
  "spec_mean_loss predict loss_fn batches =
     spec_running_mean
       (map (\<lambda>b. (length (fst b), spec_mean (loss_fn (predict (fst b)) (snd b)))) batches) 0 0"

definition spec_marginal_pred :: "(matrix \<Rightarrow> matrix) \<Rightarrow> nat \<Rightarrow> batch list \<Rightarrow> vec" where
  "spec_marginal_pred predict k batches =
     spec_running_mean_row
       (map (\<lambda>b. (length (fst b), spec_mean_row k (predict (fst b)))) batches) 0 (replicate k 0)"

definition spec_marginal_loss ::
  "(matrix \<Rightarrow> matrix) \<Rightarrow> (matrix \<Rightarrow> vec \<Rightarrow> vec) \<Rightarrow> nat \<Rightarrow> batch list \<Rightarrow> real" where
  "spec_marginal_loss predict loss_fn k batches =
     spec_running_mean
       (map (\<lambda>b. (length (fst b),
                   spec_mean (loss_fn (replicate (length (snd b))
                                         (spec_marginal_pred predict k batches)) (snd b))))
          batches) 0 0"

definition spec_total ::
  "(matrix \<Rightarrow> matrix) \<Rightarrow> (matrix \<Rightarrow> vec \<Rightarrow> vec) \<Rightarrow> nat \<Rightarrow> batch list \<Rightarrow> real" where
  "spec_total predict loss_fn k batches =
     spec_marginal_loss predict loss_fn k batches - spec_mean_loss predict loss_fn batches"

section \<open>Convergence check and sampling loop\<close>

text \<open>
  \<^verbatim>\<open>np.max\<close> of an empty array raises ValueError. \<^verbatim>\<open>v ** 0.5\<close> of a negative numpy
  float is \<^verbatim>\<open>nan\<close>.
\<close>

definition np_max :: "vec \<Rightarrow> error + real" where
  "np_max v = (if v = [] then Inl ValueError else Inr (Max (set v)))"

definition np_sqrt :: "real \<Rightarrow> real option" where
  "np_sqrt v = (if v < 0 then None else Some (sqrt v))"

text \<open>
  \<^verbatim>\<open>(conf / total) < convergence_threshold\<close> on numpy floats. A comparison with
  \<^verbatim>\<open>nan\<close> is false. Here \<open>tot\<close> is the source's \<^verbatim>\<open>total\<close>; when it is 0 numpy warns and the quotient of a \<open>conf \<ge> 0\<close>
  is \<^verbatim>\<open>inf\<close> or \<^verbatim>\<open>nan\<close>, neither of which is below a threshold (HOL's \<open>x / 0 = 0\<close>
  would be).
\<close>

definition ratio_below :: "real option \<Rightarrow> real option \<Rightarrow> real \<Rightarrow> bool" where
  "ratio_below conf tot convergence_threshold =
     (case conf of None \<Rightarrow> False
      | Some c \<Rightarrow>
          (case tot of None \<Rightarrow> False
           | Some t \<Rightarrow> if t = 0 then False else c / t < convergence_threshold))"

text \<open>
  The loop over minibatches that both estimators run: the body \<open>step\<close> on the next batch,
  then the check \<open>stop\<close>, whose \<^verbatim>\<open>break\<close> leaves the loop with the state reached.
\<close>

fun sampling_loop ::
  "('st \<Rightarrow> batch \<Rightarrow> error + 'st) \<Rightarrow> ('st \<Rightarrow> error + bool) \<Rightarrow> 'st \<Rightarrow> batch list \<Rightarrow> error + 'st" where
  "sampling_loop step stop st [] = Inr st"
| "sampling_loop step stop st (b # bs) =
     (case step st b of
        Inl e \<Rightarrow> Inl e
      | Inr st' \<Rightarrow>
          (case stop st' of
             Inl e \<Rightarrow> Inl e
           | Inr brk \<Rightarrow> if brk then Inr st' else sampling_loop step stop st' bs))"

text \<open>
  The reference-imputation check of both estimators (lines 73 to 76 and 194 to 197):
  the replicate count used from there on, and what is printed.
\<close>

definition clamp_m_samples :: "('g, 'z) imputation_module_scheme \<Rightarrow> nat \<Rightarrow> nat \<times> string list" where
  "clamp_m_samples imp m_samples =
     (if is_reference imp then
        (if m_samples \<noteq> 1 then (1, [''Using ReferenceImputation, setting m_samples = 1''])
         else (m_samples, []))
      else (m_samples, []))"

section \<open>\<^verbatim>\<open>permutation_sampling\<close>\<close>

text \<open>
  Lines 105 to 108: one \<^verbatim>\<open>torch.randperm(input_size)\<close> per example, indexing the row
  \<^verbatim>\<open>arange(input_size)\<close>.
\<close>

fun sample_permutations ::
  "(nat \<Rightarrow> 'g \<Rightarrow> nat list \<times> 'g) \<Rightarrow> nat \<Rightarrow> nat \<Rightarrow> 'g \<Rightarrow> nat list list \<times> 'g" where
  "sample_permutations randperm input_size 0 g = ([], g)"
| "sample_permutations randperm input_size (Suc n) g =
     (case randperm input_size g of (p, g1) \<Rightarrow>
        (case sample_permutations randperm input_size n g1 of (ps, g2) \<Rightarrow>
           (map (\<lambda>k. [0..<input_size] ! k) p # ps, g2)))"

text \<open>A \<^verbatim>\<open>for\<close> loop whose body may raise.\<close>

fun for_each :: "('st \<Rightarrow> 'a \<Rightarrow> error + 'st) \<Rightarrow> 'st \<Rightarrow> 'a list \<Rightarrow> error + 'st" where
  "for_each body st [] = Inr st"
| "for_each body st (i # rest) =
     (case body st i of Inl e \<Rightarrow> Inl e | Inr st' \<Rightarrow> for_each body st' rest)"

text \<open>The variables the reveal loop of one batch changes.\<close>

record 'g reveal_state =
  rs_S :: matrix
  rs_prev_loss :: vec
  rs_scores :: matrix
  rs_gen :: 'g

text \<open>The body of \<^verbatim>\<open>for i in range(input_size)\<close> (lines 126 to 139).\<close>

definition reveal_step ::
  "(matrix \<Rightarrow> matrix) \<Rightarrow> ('g, 'z) imputation_module_scheme \<Rightarrow> (matrix \<Rightarrow> vec \<Rightarrow> vec) \<Rightarrow>
   nat \<Rightarrow> nat \<Rightarrow> matrix \<Rightarrow> vec \<Rightarrow> nat list list \<Rightarrow> 'g reveal_state \<Rightarrow> nat \<Rightarrow>
   error + 'g reveal_state" where
  "reveal_step predict imp loss_fn m_samples n x y permutations st i =
     (let inds = map (\<lambda>p. p ! i) permutations;
          S = assign_at (rs_S st) [0..<n * m_samples] inds (replicate (n * m_samples) 1)
      in case imputed_loss predict imp loss_fn m_samples x S y (rs_gen st) of
           Inl e \<Rightarrow> Inl e
         | Inr (loss, g') \<Rightarrow>
             Inr \<lparr>rs_S = S, rs_prev_loss = loss,
                  rs_scores = assign_at (rs_scores st) [0..<n] (take n inds)
                                (vec_sub (rs_prev_loss st) loss),
                  rs_gen = g'\<rparr>)"

text \<open>
  Lines 101 to 139 for one batch, with the reveal loop run over the positions
  \<open>0..<k\<close>; the estimator runs it with \<open>k = input_size\<close>.
\<close>

definition reveal_prefix ::
  "(matrix \<Rightarrow> matrix) \<Rightarrow> ('g, 'z) imputation_module_scheme \<Rightarrow> (matrix \<Rightarrow> vec \<Rightarrow> vec) \<Rightarrow>
   (nat \<Rightarrow> 'g \<Rightarrow> nat list \<times> 'g) \<Rightarrow> nat \<Rightarrow> nat \<Rightarrow> batch \<Rightarrow> 'g \<Rightarrow> nat \<Rightarrow>
   error + 'g reveal_state" where
  "reveal_prefix predict imp loss_fn randperm input_size m_samples b g k =
     (case b of (x, y) \<Rightarrow>
        let n = length x in
        case sample_permutations randperm input_size n g of (perms, g1) \<Rightarrow>
          let S = repeat_rows m_samples (zeros n input_size);
              permutations = repeat_rows m_samples perms;
              xr = repeat_rows m_samples x
          in case imputed_loss predict imp loss_fn m_samples xr S y g1 of
               Inl e \<Rightarrow> Inl e
             | Inr (prev_loss, g2) \<Rightarrow>
                 for_each (reveal_step predict imp loss_fn m_samples n xr y permutations)
                   \<lparr>rs_S = S, rs_prev_loss = prev_loss, rs_scores = zeros n input_size,
                    rs_gen = g2\<rparr>
                   [0..<k])"

text \<open>The body of \<^verbatim>\<open>for x, y in loader\<close> up to \<^verbatim>\<open>tracker.update(scores)\<close> (line 144).\<close>

definition permutation_batch ::
  "(matrix \<Rightarrow> matrix) \<Rightarrow> ('g, 'z) imputation_module_scheme \<Rightarrow> (matrix \<Rightarrow> vec \<Rightarrow> vec) \<Rightarrow>
   (nat \<Rightarrow> 'g \<Rightarrow> nat list \<times> 'g) \<Rightarrow> ('tr, matrix, 'v, 's, 'y) importance_tracker_scheme \<Rightarrow>
   nat \<Rightarrow> nat \<Rightarrow> 'tr \<times> 'g \<Rightarrow> batch \<Rightarrow> error + ('tr \<times> 'g)" where
  "permutation_batch predict imp loss_fn randperm T input_size m_samples st b =
     (case st of (tracker, g) \<Rightarrow>
        case reveal_prefix predict imp loss_fn randperm input_size m_samples b g input_size of
          Inl e \<Rightarrow> Inl e
        | Inr rs \<Rightarrow> Inr (tracker_update T tracker (rs_scores rs), rs_gen rs))"

text \<open>Lines 147 to 154: whether the loop breaks after this batch.\<close>

definition permutation_stop ::
  "('tr, matrix, vec, 's, 'y) importance_tracker_scheme \<Rightarrow> bool \<Rightarrow> real \<Rightarrow> real option \<Rightarrow>
   'tr \<times> 'g \<Rightarrow> error + bool" where
  "permutation_stop T detect_convergence convergence_threshold tot st =
     (case np_max (tracker_var T (fst st)) of
        Inl e \<Rightarrow> Inl e
      | Inr mx \<Rightarrow>
          let conf = np_sqrt mx in
          if detect_convergence then
            (if ratio_below conf tot convergence_threshold then Inr True else Inr False)
          else Inr False)"

text \<open>
  \<^verbatim>\<open>permutation_sampling\<close>. \<open>predict\<close> is \<^verbatim>\<open>model.predict\<close> after the optional wrapper,
  \<open>batches\<close> what the sequential loader of \<^verbatim>\<open>estimate_total\<close> yields, \<open>loader\<close> the
  minibatches the random loader yields. The result is what is printed, and the returned
  \<^verbatim>\<open>tracker.scores\<close> or the exception raised. Of the printed output only the notice of
  the reference-imputation check is kept: the messages under \<^verbatim>\<open>verbose\<close> and the progress
  bar do not change what is computed. \<open>m_samples\<close> is a natural number.
\<close>

definition permutation_sampling ::
  "(matrix \<Rightarrow> matrix) \<Rightarrow> ('g, 'z) imputation_module_scheme \<Rightarrow> (matrix \<Rightarrow> vec \<Rightarrow> vec) \<Rightarrow>
   (nat \<Rightarrow> 'g \<Rightarrow> nat list \<times> 'g) \<Rightarrow> ('tr, matrix, vec, 's, 'y) importance_tracker_scheme \<Rightarrow>
   nat \<Rightarrow> batch list \<Rightarrow> batch list \<Rightarrow> nat \<Rightarrow> bool \<Rightarrow> real \<Rightarrow> 'g \<Rightarrow>
   string list \<times> (error + 's)" where
  "permutation_sampling predict imp loss_fn randperm T input_size batches loader m_samples
     detect_convergence convergence_threshold g =
     (if \<not> is_module imp then ([], Inl AssertionError)
      else case clamp_m_samples imp m_samples of (m, out) \<Rightarrow>
        (out,
         case estimate_total predict loss_fn batches of
           Inl e \<Rightarrow> Inl e
         | Inr tot \<Rightarrow>
             (case sampling_loop
                     (permutation_batch predict imp loss_fn randperm T input_size m)
                     (permutation_stop T detect_convergence convergence_threshold tot)
                     (tracker_new T, g) loader of
                Inl e \<Rightarrow> Inl e
              | Inr st \<Rightarrow> Inr (tracker_scores T (fst st)))))"

section \<open>\<^verbatim>\<open>iterated_sampling\<close>\<close>

text \<open>
  The body of the minibatch loop up to \<^verbatim>\<open>tracker.update\<close> (lines 224 to 246).
  \<^verbatim>\<open>utils.sample_subset_feature(input_size, n, ind)\<close> is a parameter that draws from the
  generator.
\<close>

definition iterated_batch ::
  "(matrix \<Rightarrow> matrix) \<Rightarrow> ('g, 'z) imputation_module_scheme \<Rightarrow> (matrix \<Rightarrow> vec \<Rightarrow> vec) \<Rightarrow>
   (nat \<Rightarrow> nat \<Rightarrow> nat \<Rightarrow> 'g \<Rightarrow> matrix \<times> 'g) \<Rightarrow> ('tr, vec, 'v, 's, 'y) importance_tracker_scheme \<Rightarrow>
   nat \<Rightarrow> nat \<Rightarrow> nat \<Rightarrow> 'tr \<times> 'g \<Rightarrow> batch \<Rightarrow> error + ('tr \<times> 'g)" where
  "iterated_batch predict imp loss_fn sample_subset_feature T input_size m_samples ind st b =
     (case st of (tracker, g) \<Rightarrow>
      case b of (x, y) \<Rightarrow>
        let n = length x in
        case sample_subset_feature input_size n ind g of (S0, g1) \<Rightarrow>
          let S = repeat_rows m_samples S0;
              xr = repeat_rows m_samples x
          in case imputed_loss predict imp loss_fn m_samples xr S y g1 of
               Inl e \<Rightarrow> Inl e
             | Inr (loss_discluded, g2) \<Rightarrow>
                 (case imputed_loss predict imp loss_fn m_samples xr (set_column ind S) y g2 of
                    Inl e \<Rightarrow> Inl e
                  | Inr (loss_included, g3) \<Rightarrow>
                      Inr (tracker_update T tracker (vec_sub loss_discluded loss_included),
                           g3)))"

text \<open>Lines 251 to 259.\<close>

definition iterated_stop ::
  "('tr, vec, real, 's, 'y) importance_tracker_scheme \<Rightarrow> bool \<Rightarrow> real \<Rightarrow> real option \<Rightarrow>
   'tr \<times> 'g \<Rightarrow> error + bool" where
  "iterated_stop T detect_convergence convergence_threshold tot st =
     (let conf = np_sqrt (tracker_var T (fst st)) in
      if detect_convergence then
        (if ratio_below conf tot convergence_threshold then Inr True else Inr False)
      else Inr False)"

text \<open>
  The loop \<^verbatim>\<open>for ind in range(input_size)\<close>: \<open>run ind g\<close> is the minibatch loop of
  feature \<open>ind\<close> started on a new tracker, and \<open>score\<close> reads \<^verbatim>\<open>tracker.scores\<close>.
\<close>

fun iterated_features ::
  "(nat \<Rightarrow> 'g \<Rightarrow> error + ('tr \<times> 'g)) \<Rightarrow> ('tr \<Rightarrow> 's) \<Rightarrow> nat list \<Rightarrow> 'g \<Rightarrow> error + 's list" where
  "iterated_features run score [] g = Inr []"
| "iterated_features run score (ind # inds) g =
     (case run ind g of
        Inl e \<Rightarrow> Inl e
      | Inr st \<Rightarrow>
          (case iterated_features run score inds (snd st) of
             Inl e \<Rightarrow> Inl e
           | Inr rest \<Rightarrow> Inr (score (fst st) # rest)))"

text \<open>\<^verbatim>\<open>np.stack\<close> raises ValueError on an empty list.\<close>

definition np_stack :: "'s list \<Rightarrow> error + 's list" where
  "np_stack scores = (if scores = [] then Inl ValueError else Inr scores)"

text \<open>The minibatch loop of one feature (lines 221 to 259).\<close>

definition feature_loop ::
  "(matrix \<Rightarrow> matrix) \<Rightarrow> ('g, 'z) imputation_module_scheme \<Rightarrow> (matrix \<Rightarrow> vec \<Rightarrow> vec) \<Rightarrow>
   (nat \<Rightarrow> nat \<Rightarrow> nat \<Rightarrow> 'g \<Rightarrow> matrix \<times> 'g) \<Rightarrow> ('tr, vec, real, 's, 'y) importance_tracker_scheme \<Rightarrow>
   nat \<Rightarrow> nat \<Rightarrow> bool \<Rightarrow> real \<Rightarrow> real option \<Rightarrow> (nat \<Rightarrow> batch list) \<Rightarrow> nat \<Rightarrow> 'g \<Rightarrow>
   error + ('tr \<times> 'g)" where
  "feature_loop predict imp loss_fn sample_subset_feature T input_size m_samples
     detect_convergence convergence_threshold tot loader ind g =
     sampling_loop
       (iterated_batch predict imp loss_fn sample_subset_feature T input_size m_samples ind)
       (iterated_stop T detect_convergence convergence_threshold tot)
       (tracker_new T, g) (loader ind)"

text \<open>
  \<^verbatim>\<open>iterated_sampling\<close>. \<open>loader ind\<close> is the minibatches the random loader yields when
  it is iterated for feature \<open>ind\<close>.
\<close>

definition iterated_sampling ::
  "(matrix \<Rightarrow> matrix) \<Rightarrow> ('g, 'z) imputation_module_scheme \<Rightarrow> (matrix \<Rightarrow> vec \<Rightarrow> vec) \<Rightarrow>
   (nat \<Rightarrow> nat \<Rightarrow> nat \<Rightarrow> 'g \<Rightarrow> matrix \<times> 'g) \<Rightarrow> ('tr, vec, real, 's, 'y) importance_tracker_scheme \<Rightarrow>
   nat \<Rightarrow> batch list \<Rightarrow> (nat \<Rightarrow> batch list) \<Rightarrow> nat \<Rightarrow> bool \<Rightarrow> real \<Rightarrow> 'g \<Rightarrow>
   string list \<times> (error + 's list)" where
  "iterated_sampling predict imp loss_fn sample_subset_feature T input_size batches loader
     m_samples detect_convergence convergence_threshold g =
     (if \<not> is_module imp then ([], Inl AssertionError)
      else case clamp_m_samples imp m_samples of (m, out) \<Rightarrow>
        (out,
         case estimate_total predict loss_fn batches of
           Inl e \<Rightarrow> Inl e
         | Inr tot \<Rightarrow>
             (case iterated_features
                     (feature_loop predict imp loss_fn sample_subset_feature T input_size m
                        detect_convergence convergence_threshold tot loader)
                     (tracker_scores T) [0..<input_size] g of
                Inl e \<Rightarrow> Inl e
              | Inr scores \<Rightarrow> np_stack scores)))"

section \<open>A small instance\<close>

text \<open>
  A concrete model, imputation, loss, permutation source and trackers, on which the
  results below are evaluated: the model predicts the sum of the features, held-out
  features are imputed with the reference value 0, the loss is the squared error, the
  generator is a counter, and a tracker keeps the list of the updates it received.
\<close>

definition ex_predict :: "matrix \<Rightarrow> matrix" where
  "ex_predict X = map (\<lambda>row. [sum_list row]) X"

definition ex_loss :: "matrix \<Rightarrow> vec \<Rightarrow> vec" where
  "ex_loss pred y = map (\<lambda>j. (sum_list (pred ! j) - y ! j)\<^sup>2) [0..<length y]"

definition ex_imp :: "nat imputation_module" where
  "ex_imp = \<lparr>is_module = True, is_reference = True,
             impute = (\<lambda>g x S.
               (map (\<lambda>r. map (\<lambda>c. x ! r ! c * S ! r ! c) [0..<length (x ! r)]) [0..<length x],
                Suc g))\<rparr>"

definition ex_randperm :: "nat \<Rightarrow> nat \<Rightarrow> nat list \<times> nat" where
  "ex_randperm d g = (rotate g [0..<d], Suc g)"

definition ex_sampler :: "nat \<Rightarrow> nat \<Rightarrow> nat \<Rightarrow> nat \<Rightarrow> matrix \<times> nat" where
  "ex_sampler d n ind g =
     (replicate n (map (\<lambda>c. if c = ind then 0 else if c < ind then 1 else 0) [0..<d]),
      Suc g)"

definition ex_loader :: "batch list" where
  "ex_loader = [([[1, 2]], [3]), ([[2, 0]], [1]), ([[1, 1]], [0])]"

definition ex_near_zero :: "batch list" where
  "ex_near_zero = [([[1 / 100, 0], [- 1 / 100, 0]], [0, 0])]"


definition ex_tracker :: "(matrix list, matrix, vec, matrix list) importance_tracker" where
  "ex_tracker = \<lparr>tracker_new = [], tracker_update = (\<lambda>tr sc. tr @ [sc]),
                 tracker_var = (\<lambda>tr. [if length tr < 2 then 1 else 0]),
                 tracker_scores = (\<lambda>tr. tr)\<rparr>"

definition ex_tracker1 :: "(vec list, vec, real, vec list) importance_tracker" where
  "ex_tracker1 = \<lparr>tracker_new = [], tracker_update = (\<lambda>tr sc. tr @ [sc]),
                  tracker_var = (\<lambda>tr. if length tr < 2 then 1 else 0),
                  tracker_scores = (\<lambda>tr. tr)\<rparr>"

section \<open>Rounding to float64\<close>

lemma round_half_even_of_int: "round_half_even (of_int z) = z"
  by (simp add: round_half_even_def)

lemma float64_round_at:
  assumes "x \<noteq> 0" and "2 powr of_int k \<le> \<bar>x\<bar>" and "\<bar>x\<bar> < 2 powr of_int (k + 1)"
  shows "float64_round x =
     of_int (round_half_even (x / 2 powr of_int (k - 52))) * 2 powr of_int (k - 52)"
proof -
  have "\<lfloor>log 2 \<bar>x\<bar>\<rfloor> = k"
    using assms by (subst floor_log_eq_powr_iff) simp_all
  then show ?thesis using assms(1) by (simp add: float64_round_def)
qed

lemma float64_round_exact:
  assumes x: "x = of_int m * 2 powr of_int e0" and m: "\<bar>m\<bar> < 2 ^ 53"
  shows "float64_round x = x"
proof (cases "m = 0")
  case True
  then show ?thesis using x by (simp add: float64_round_def)
next
  case False
  then have x0: "x \<noteq> 0" using x by simp
  define e where "e = \<lfloor>log 2 \<bar>x\<bar>\<rfloor> - 52"
  have absx: "\<bar>x\<bar> = of_int \<bar>m\<bar> * 2 powr of_int e0" using x by (simp add: abs_mult)
  have "of_int \<bar>m\<bar> < (2 :: real) ^ 53" using m by (metis of_int_less_numeral_power_cancel_iff)
  then have "\<bar>x\<bar> < 2 ^ 53 * 2 powr of_int e0" using absx by simp
  also have "\<dots> = 2 powr (53 + of_int e0)" by (simp add: powr_add)
  finally have "log 2 \<bar>x\<bar> < 53 + of_int e0" using x0 by (simp add: log_less_iff)
  then have "\<lfloor>log 2 \<bar>x\<bar>\<rfloor> < 53 + e0" by (simp add: floor_less_iff)
  then have le: "e \<le> e0" by (simp add: e_def)
  define n where "n = nat (e0 - e)"
  have n: "of_int e0 = of_int e + real n" using le by (simp add: n_def)
  have "x / 2 powr of_int e = of_int m * 2 powr (real n)"
    using x by (simp add: n powr_add)
  also have "\<dots> = of_int (m * 2 ^ n)" by (simp add: powr_realpow)
  finally have q: "x / 2 powr of_int e = of_int (m * 2 ^ n)" .
  have "float64_round x = of_int (round_half_even (x / 2 powr of_int e)) * 2 powr of_int e"
    using x0 by (simp add: float64_round_def e_def)
  also have "\<dots> = of_int (m * 2 ^ n) * 2 powr of_int e"
    unfolding q round_half_even_of_int ..
  also have "\<dots> = x / 2 powr of_int e * 2 powr of_int e" using q by simp
  also have "\<dots> = x" by simp
  finally show ?thesis .
qed

lemma float64_round_of_int:
  assumes "\<bar>z\<bar> < 2 ^ 53"
  shows "float64_round (of_int z) = of_int z"
  by (rule float64_round_exact[of _ z 0]) (use assms in simp_all)

lemma float64_round_zero: "float64_round 0 = 0"
  by (simp add: float64_round_def)

lemma float64_round_one: "float64_round 1 = 1"
  using float64_round_of_int[of 1] by simp

lemma float64_round_numeral:
  assumes "(numeral k :: int) < 2 ^ 53"
  shows "float64_round (numeral k) = numeral k"
  using float64_round_of_int[of "numeral k"] assms by simp

lemma float64_round_neg_numeral:
  assumes "(numeral k :: int) < 2 ^ 53"
  shows "float64_round (- numeral k) = - numeral k"
  using float64_round_of_int[of "- numeral k"] assms by simp

lemma float64_round_neg_one: "float64_round (- 1) = - 1"
  using float64_round_of_int[of "- 1"] by simp

lemmas float64_evals = float64_sub_def float64_round_zero float64_round_one float64_round_neg_one
  float64_round_numeral float64_round_neg_numeral

lemma float64_round_neg_pow54: "float64_round (- (1 / 2 ^ 54)) = - (1 / 2 ^ 54)"
proof -
  have "(2 :: real) powr of_int (- 54) = 1 / 2 ^ 54"
    by (simp add: powr_minus_divide)
  then show ?thesis
    by (intro float64_round_exact[of _ "- 1" "- 54"]) simp_all
qed

lemma float64_round_tie: "float64_round (1 - 1 / 2 ^ 54) = 1"
proof -
  let ?x = "1 - 1 / 2 ^ 54 :: real"
  have p1: "(2 :: real) powr of_int (- 1) = 1 / 2" by (simp add: powr_minus_divide)
  have p53: "(2 :: real) powr of_int (- 1 - 52) = 1 / 2 ^ 53" by (simp add: powr_minus_divide)
  have a: "?x \<noteq> 0" by simp
  have b: "2 powr of_int (- 1) \<le> \<bar>?x\<bar>" unfolding p1 by simp
  have c: "\<bar>?x\<bar> < 2 powr of_int (- 1 + 1)" by simp
  have q: "?x / (1 / 2 ^ 53) = 2 ^ 53 - 1 / 2" by simp
  have fl: "\<lfloor>2 ^ 53 - 1 / 2 :: real\<rfloor> = 2 ^ 53 - 1"
    by (rule floor_unique) simp_all
  have r: "round_half_even (2 ^ 53 - 1 / 2) = 2 ^ 53"
    unfolding round_half_even_def fl by simp
  show ?thesis
    using float64_round_at[OF a b c] unfolding p53 q r by simp
qed

lemma float64_sub_tie: "float64_sub 1 (1 / 2 ^ 54) = 1"
  by (simp only: float64_sub_def float64_round_tie)

lemma float64_sub_neg_pow54: "float64_sub 0 (1 / 2 ^ 54) = - (1 / 2 ^ 54)"
  using float64_round_neg_pow54 by (simp add: float64_sub_def)

section \<open>Averaging over the replicates\<close>

lemma foldl_mat_add_length:
  assumes "\<forall>M \<in> set (M0 # Ms). length M = n"
  shows "length (foldl mat_add M0 Ms) = n"
  using assms by (induction Ms rule: rev_induct) (simp_all add: mat_add_def)

lemma foldl_mat_add_row_length:
  assumes "\<forall>M \<in> set (M0 # Ms). length M = n \<and> (\<forall>row \<in> set M. length row = k)"
    and "j < n"
  shows "length (foldl mat_add M0 Ms ! j) = k"
  using assms
proof (induction Ms rule: rev_induct)
  case Nil
  then show ?case by simp
next
  case (snoc M Ms)
  let ?A = "foldl mat_add M0 Ms"
  from snoc.prems have pre: "\<forall>M \<in> set (M0 # Ms). length M = n \<and> (\<forall>row \<in> set M. length row = k)"
    by simp
  then have len: "length ?A = n" by (intro foldl_mat_add_length) simp
  from snoc.IH[OF pre snoc.prems(2)] have A: "length (?A ! j) = k" .
  from snoc.prems have M: "length M = n" "length (M ! j) = k" by simp_all
  have "mat_add ?A M ! j = vec_add (?A ! j) (M ! j)"
    using len M snoc.prems(2) by (simp add: mat_add_def)
  then show ?case using A M by (simp add: vec_add_def)
qed

lemma foldl_mat_add_nth:
  assumes "\<forall>M \<in> set (M0 # Ms). length M = n \<and> (\<forall>row \<in> set M. length row = k)"
    and "j < n" and "c < k"
  shows "foldl mat_add M0 Ms ! j ! c = (\<Sum>r < Suc (length Ms). (M0 # Ms) ! r ! j ! c)"
  using assms
proof (induction Ms rule: rev_induct)
  case Nil
  then show ?case by simp
next
  case (snoc M Ms)
  let ?A = "foldl mat_add M0 Ms"
  from snoc.prems have pre: "\<forall>M \<in> set (M0 # Ms). length M = n \<and> (\<forall>row \<in> set M. length row = k)"
    by simp
  then have len: "length ?A = n" by (intro foldl_mat_add_length) simp
  have A: "length (?A ! j) = k" by (rule foldl_mat_add_row_length[OF pre snoc.prems(2)])
  have IH: "?A ! j ! c = (\<Sum>r < Suc (length Ms). (M0 # Ms) ! r ! j ! c)"
    by (rule snoc.IH[OF pre snoc.prems(2,3)])
  from snoc.prems have M: "length M = n" "length (M ! j) = k" by simp_all
  have last: "(M0 # Ms @ [M]) ! Suc (length Ms) = M"
    by (simp add: nth_append)
  have pref: "\<And>r. r < Suc (length Ms) \<Longrightarrow> (M0 # Ms @ [M]) ! r = (M0 # Ms) ! r"
    by (metis append_Cons length_Cons nth_append)
  have "mat_add ?A M ! j = vec_add (?A ! j) (M ! j)"
    using len M snoc.prems(2) by (simp add: mat_add_def)
  moreover have "vec_add (?A ! j) (M ! j) ! c = ?A ! j ! c + M ! j ! c"
    using A M snoc.prems(3) by (simp add: vec_add_def)
  ultimately show ?case using IH last pref by simp
qed

lemma reshape_replicates_blocks:
  assumes "0 < m" and "length Y = m * n"
  shows "reshape_replicates m Y = Inr (map (\<lambda>r. take n (drop (r * n) Y)) [0..<m])"
  using assms by (simp add: reshape_replicates_def)

lemma block_length:
  assumes "length Y = m * n" and "r < m"
  shows "length (take n (drop (r * n) Y)) = n"
proof -
  have "Suc r * n \<le> m * n" using assms(2) by (intro mult_le_mono1) simp
  then show ?thesis using assms(1) by simp
qed

lemma block_nth:
  assumes "length Y = m * n" and "r < m" and "j < n"
  shows "take n (drop (r * n) Y) ! j = Y ! (r * n + j)"
proof -
  have "Suc r * n \<le> m * n" using assms(2) by (intro mult_le_mono1) simp
  then have "r * n + j < length Y" using assms(1,3) by simp
  then show ?thesis using assms(3) by simp
qed

lemma mean_axis0_blocks:
  assumes "0 < m" and "length Y = m * n" and "\<forall>row \<in> set Y. length row = k"
  shows "mean_axis0 (map (\<lambda>r. take n (drop (r * n) Y)) [0..<m]) =
     map (\<lambda>j. map (\<lambda>c. (\<Sum>r<m. Y ! (r * n + j) ! c) / real m) [0..<k]) [0..<n]"
proof -
  let ?Ms = "map (\<lambda>r. take n (drop (r * n) Y)) [0..<m]"
  obtain M0 rest where Ms: "?Ms = M0 # rest"
    using assms(1) by (cases ?Ms) simp_all
  have lenMs: "length ?Ms = m" by simp
  then have lrest: "Suc (length rest) = m" using Ms by simp
  have shape: "\<forall>M \<in> set (M0 # rest). length M = n \<and> (\<forall>row \<in> set M. length row = k)"
  proof
    fix M assume "M \<in> set (M0 # rest)"
    then have "M \<in> set ?Ms" using Ms by simp
    then obtain r where r: "r < m" "M = take n (drop (r * n) Y)" by auto
    have "set M \<subseteq> set Y" using r(2) by (metis set_drop_subset set_take_subset subset_trans)
    then show "length M = n \<and> (\<forall>row \<in> set M. length row = k)"
      using block_length[OF assms(2) r(1)] r(2) assms(3) by auto
  qed
  let ?F = "foldl mat_add M0 rest"
  have lenF: "length ?F = n" using shape by (intro foldl_mat_add_length) simp
  have mean: "mean_axis0 ?Ms = map (map (\<lambda>v. v / real m)) ?F"
    using Ms lrest by (simp add: mean_axis0_def del: map_upt_Suc upt_Suc)
  show ?thesis
  proof (rule nth_equalityI)
    show "length (mean_axis0 ?Ms) = length (map (\<lambda>j. map (\<lambda>c. (\<Sum>r<m. Y ! (r * n + j) ! c) / real m) [0..<k]) [0..<n])"
      using mean lenF by simp
  next
    fix j assume "j < length (mean_axis0 ?Ms)"
    then have j: "j < n" using mean lenF by simp
    have rowlen: "length (?F ! j) = k"
      by (rule foldl_mat_add_row_length[OF shape j])
    have entry: "\<And>c. c < k \<Longrightarrow> ?F ! j ! c = (\<Sum>r<m. Y ! (r * n + j) ! c)"
    proof -
      fix c assume c: "c < k"
      have "?F ! j ! c = (\<Sum>r < m. ?Ms ! r ! j ! c)"
        using foldl_mat_add_nth[OF shape j c] lrest Ms by simp
      also have "\<dots> = (\<Sum>r<m. Y ! (r * n + j) ! c)"
        by (rule sum.cong) (simp_all add: block_nth[OF assms(2) _ j])
      finally show "?F ! j ! c = (\<Sum>r<m. Y ! (r * n + j) ! c)" .
    qed
    have "map (\<lambda>v. v / real m) (?F ! j) = map (\<lambda>c. (\<Sum>r<m. Y ! (r * n + j) ! c) / real m) [0..<k]"
      by (rule nth_equalityI) (simp_all add: rowlen entry)
    then show "mean_axis0 ?Ms ! j = map (\<lambda>j. map (\<lambda>c. (\<Sum>r<m. Y ! (r * n + j) ! c) / real m) [0..<k]) [0..<n] ! j"
      using mean lenF j by simp
  qed
qed

section \<open>Loops and index assignments\<close>

lemma for_each_append:
  "for_each body st (xs @ ys) =
     (case for_each body st xs of Inl e \<Rightarrow> Inl e | Inr st' \<Rightarrow> for_each body st' ys)"
  by (induction xs arbitrary: st) (auto split: sum.splits)

lemma for_each_upt_Suc:
  "for_each body st [0..<Suc k] =
     (case for_each body st [0..<k] of Inl e \<Rightarrow> Inl e | Inr st' \<Rightarrow> body st' k)"
  by (simp add: for_each_append split: sum.splits)

lemma for_each_prefix_ok:
  assumes "for_each body st [0..<k] = Inr s" and "i \<le> k"
  shows "\<exists>s'. for_each body st [0..<i] = Inr s'"
proof -
  have "[0..<k] = [0..<i] @ [i..<k]" using assms(2) by (metis le0 upt_add_eq_append le_add_diff_inverse)
  then show ?thesis using assms(1) by (auto simp: for_each_append split: sum.splits)
qed

lemma fold_assign_length:
  "length (fold (\<lambda>k B. B[k := (B ! k)[cols ! k := vals ! k]]) [0..<n] A) = length A"
  by (induction n) simp_all

lemma fold_assign_nth:
  assumes "n \<le> length A" and "j < length A"
  shows "fold (\<lambda>k B. B[k := (B ! k)[cols ! k := vals ! k]]) [0..<n] A ! j =
     (if j < n then (A ! j)[cols ! j := vals ! j] else A ! j)"
  using assms
proof (induction n)
  case 0
  then show ?case by simp
next
  case (Suc n)
  then show ?case
    by (auto simp: fold_assign_length nth_list_update)
qed

lemma assign_at_upt:
  "assign_at A [0..<n] cols vals = fold (\<lambda>k B. B[k := (B ! k)[cols ! k := vals ! k]]) [0..<n] A"
  unfolding assign_at_def by (rule fold_cong) simp_all

lemma assign_at_length: "length (assign_at A [0..<n] cols vals) = length A"
  by (simp add: assign_at_upt fold_assign_length)

lemma assign_at_nth:
  assumes "n \<le> length A" and "j < n"
  shows "assign_at A [0..<n] cols vals ! j = (A ! j)[cols ! j := vals ! j]"
  using assms by (simp add: assign_at_upt fold_assign_nth)

section \<open>The reveal loop of one batch\<close>

lemma repeat_rows_length: "length (repeat_rows m t) = m * length t"
  by (induction m) (simp_all add: repeat_rows_def)

lemma repeat_rows_set: "set (repeat_rows m t) \<subseteq> set t"
  by (induction m) (auto simp: repeat_rows_def)

lemma repeat_rows_nth:
  assumes "0 < m" and "j < length t"
  shows "repeat_rows m t ! j = t ! j"
proof -
  obtain m' where "m = Suc m'" using assms(1) by (cases m) simp_all
  then show ?thesis using assms(2) by (simp add: repeat_rows_def nth_append)
qed

lemma imputed_loss_length:
  assumes "imputed_loss predict imp loss_fn m x S y g = Inr (loss, g')"
    and "\<forall>p yy. length (loss_fn p yy) = length yy"
  shows "length loss = length y"
  using assms by (auto simp: imputed_loss_def split: prod.splits sum.splits)

lemma reveal_step_facts:
  assumes step: "reveal_step predict imp loss_fn m n x y P st i = Inr st'"
    and P: "n \<le> length P"
    and lf: "\<forall>p yy. length (loss_fn p yy) = length yy" and ly: "length y = n"
    and sc: "length (rs_scores st) = n" and pl: "length (rs_prev_loss st) = n"
    and S: "length (rs_S st) = n * m"
  shows "rs_S st' = assign_at (rs_S st) [0..<n * m] (map (\<lambda>p. p ! i) P) (replicate (n * m) 1)"
    and "imputed_loss predict imp loss_fn m x (rs_S st') y (rs_gen st) =
           Inr (rs_prev_loss st', rs_gen st')"
    and "length (rs_prev_loss st') = n"
    and "length (rs_scores st') = n"
    and "length (rs_S st') = n * m"
    and "\<And>j. j < n \<Longrightarrow> rs_scores st' ! j =
           (rs_scores st ! j)[P ! j ! i := float64_sub (rs_prev_loss st ! j) (rs_prev_loss st' ! j)]"
proof -
  let ?inds = "map (\<lambda>p. p ! i) P"
  let ?S = "assign_at (rs_S st) [0..<n * m] ?inds (replicate (n * m) 1)"
  from step obtain loss g' where
    il: "imputed_loss predict imp loss_fn m x ?S y (rs_gen st) = Inr (loss, g')"
    and st': "st' = \<lparr>rs_S = ?S, rs_prev_loss = loss,
        rs_scores = assign_at (rs_scores st) [0..<n] (take n ?inds) (vec_sub (rs_prev_loss st) loss),
        rs_gen = g'\<rparr>"
    by (auto simp: reveal_step_def Let_def split: sum.splits prod.splits)
  show "rs_S st' = ?S" using st' by simp
  show "imputed_loss predict imp loss_fn m x (rs_S st') y (rs_gen st) =
           Inr (rs_prev_loss st', rs_gen st')" using st' il by simp
  have ll: "length loss = n" using imputed_loss_length[OF il lf] ly by simp
  then show "length (rs_prev_loss st') = n" using st' by simp
  show "length (rs_scores st') = n" using st' sc by (simp add: assign_at_length)
  show "length (rs_S st') = n * m" using st' S by (simp add: assign_at_length)
  fix j assume j: "j < n"
  have "rs_scores st' ! j = (rs_scores st ! j)[take n ?inds ! j := vec_sub (rs_prev_loss st) loss ! j]"
    using st' sc j by (simp add: assign_at_nth)
  moreover have "take n ?inds ! j = P ! j ! i" using j P by simp
  moreover have "vec_sub (rs_prev_loss st) loss ! j = float64_sub (rs_prev_loss st ! j) (loss ! j)"
    using j pl ll by (simp add: vec_sub_def)
  ultimately show "rs_scores st' ! j =
           (rs_scores st ! j)[P ! j ! i := float64_sub (rs_prev_loss st ! j) (rs_prev_loss st' ! j)]"
    using st' by simp
qed

lemma reveal_step_mask:
  assumes step: "reveal_step predict imp loss_fn m n x y P st i = Inr st'"
    and S: "length (rs_S st) = n * m" and r: "r < n * m" and P: "length P = n * m"
  shows "rs_S st' ! r = (rs_S st ! r)[P ! r ! i := 1]"
proof -
  have "rs_S st' = assign_at (rs_S st) [0..<n * m] (map (\<lambda>p. p ! i) P) (replicate (n * m) 1)"
    using step by (auto simp: reveal_step_def Let_def split: sum.splits prod.splits)
  then show ?thesis using S r P by (simp add: assign_at_nth)
qed

lemma reveal_invariant:
  assumes P: "length P = n * m" and m: "0 < m"
    and perm: "\<forall>p \<in> set P. distinct p \<and> length p = d \<and> set p = {..<d}"
    and lf: "\<forall>p yy. length (loss_fn p yy) = length yy" and ly: "length y = n"
    and i1: "rs_scores s0 = zeros n d" and i2: "length (rs_S s0) = n * m"
    and i3: "\<forall>r < n * m. rs_S s0 ! r = replicate d 0" and i4: "length (rs_prev_loss s0) = n"
    and run: "for_each (reveal_step predict imp loss_fn m n x y P) s0 [0..<k] = Inr s"
    and k: "k \<le> d"
  shows "length (rs_scores s) = n \<and> length (rs_prev_loss s) = n \<and> length (rs_S s) = n * m \<and>
     (\<forall>j < n. length (rs_scores s ! j) = d) \<and>
     (\<forall>r < n * m. length (rs_S s ! r) = d) \<and>
     (\<forall>j < n. \<forall>c < d. c \<notin> set (take k (P ! j)) \<longrightarrow> rs_scores s ! j ! c = 0) \<and>
     (\<forall>r < n * m. \<forall>c < d. rs_S s ! r ! c = (if c \<in> set (take k (P ! r)) then 1 else 0)) \<and>
     (\<forall>i < k. \<forall>si si'.
         for_each (reveal_step predict imp loss_fn m n x y P) s0 [0..<i] = Inr si \<longrightarrow>
         for_each (reveal_step predict imp loss_fn m n x y P) s0 [0..<Suc i] = Inr si' \<longrightarrow>
         (\<forall>j < n. rs_scores s ! j ! (P ! j ! i) = float64_sub (rs_prev_loss si ! j) (rs_prev_loss si' ! j)))"
  using run k
proof (induction k arbitrary: s)
  case 0
  then have "s = s0" by simp
  then show ?case using i1 i2 i3 i4 by (simp add: zeros_def)
next
  case (Suc k)
  let ?step = "reveal_step predict imp loss_fn m n x y P"
  from Suc.prems(1) obtain sk where sk: "for_each ?step s0 [0..<k] = Inr sk"
    and step: "?step sk k = Inr s"
    by (auto simp: for_each_append split: sum.splits)
  have kd: "k < d" using Suc.prems(2) by simp
  from Suc.IH[OF sk] kd have IH:
    "length (rs_scores sk) = n" "length (rs_prev_loss sk) = n" "length (rs_S sk) = n * m"
    "\<forall>j < n. length (rs_scores sk ! j) = d"
    "\<forall>r < n * m. length (rs_S sk ! r) = d"
    "\<forall>j < n. \<forall>c < d. c \<notin> set (take k (P ! j)) \<longrightarrow> rs_scores sk ! j ! c = 0"
    "\<forall>r < n * m. \<forall>c < d. rs_S sk ! r ! c = (if c \<in> set (take k (P ! r)) then 1 else 0)"
    "\<forall>i < k. \<forall>si si'. for_each ?step s0 [0..<i] = Inr si \<longrightarrow>
         for_each ?step s0 [0..<Suc i] = Inr si' \<longrightarrow>
         (\<forall>j < n. rs_scores sk ! j ! (P ! j ! i) = float64_sub (rs_prev_loss si ! j) (rs_prev_loss si' ! j))"
    by simp_all
  have nP: "n \<le> length P" using P m by simp
  note F = reveal_step_facts[OF step nP lf ly IH(1) IH(2) IH(3)]
  have row: "\<And>r. r < n * m \<Longrightarrow> distinct (P ! r) \<and> length (P ! r) = d \<and> set (P ! r) = {..<d}"
    using perm P by simp
  have nm: "\<And>j. j < n \<Longrightarrow> j < n * m" using m by (metis nP P less_le_trans)
  have tk: "\<And>r. r < n * m \<Longrightarrow> set (take (Suc k) (P ! r)) = insert (P ! r ! k) (set (take k (P ! r)))"
    using row kd by (simp add: take_Suc_conv_app_nth)
  have mask: "\<And>r. r < n * m \<Longrightarrow> rs_S s ! r = (rs_S sk ! r)[P ! r ! k := 1]"
    by (rule reveal_step_mask[OF step IH(3) _ P])
  have c1: "length (rs_scores s) = n" "length (rs_prev_loss s) = n" "length (rs_S s) = n * m"
    using F by simp_all
  have c4: "\<forall>j < n. length (rs_scores s ! j) = d" using F(6) IH(4) by simp
  have c5: "\<forall>r < n * m. length (rs_S s ! r) = d" using mask IH(5) by simp
  have c6: "\<forall>j < n. \<forall>c < d. c \<notin> set (take (Suc k) (P ! j)) \<longrightarrow> rs_scores s ! j ! c = 0"
  proof (intro allI impI)
    fix j c assume j: "j < n" and c: "c < d" and nin: "c \<notin> set (take (Suc k) (P ! j))"
    from nin tk[OF nm[OF j]] have "c \<noteq> P ! j ! k" "c \<notin> set (take k (P ! j))" by auto
    then show "rs_scores s ! j ! c = 0" using F(6)[OF j] IH(6) j c by simp
  qed
  have c7: "\<forall>r < n * m. \<forall>c < d. rs_S s ! r ! c = (if c \<in> set (take (Suc k) (P ! r)) then 1 else 0)"
  proof (intro allI impI)
    fix r c assume r: "r < n * m" and c: "c < d"
    show "rs_S s ! r ! c = (if c \<in> set (take (Suc k) (P ! r)) then 1 else 0)"
    proof (cases "c = P ! r ! k")
      case True
      then show ?thesis using mask[OF r] tk[OF r] IH(5) r c by simp
    next
      case False
      then show ?thesis using mask[OF r] tk[OF r] IH(7) r c by simp
    qed
  qed
  have c8: "\<forall>i < Suc k. \<forall>si si'. for_each ?step s0 [0..<i] = Inr si \<longrightarrow>
         for_each ?step s0 [0..<Suc i] = Inr si' \<longrightarrow>
         (\<forall>j < n. rs_scores s ! j ! (P ! j ! i) = float64_sub (rs_prev_loss si ! j) (rs_prev_loss si' ! j))"
  proof (intro allI impI)
    fix i si si' j
    assume i: "i < Suc k" and si: "for_each ?step s0 [0..<i] = Inr si"
      and si': "for_each ?step s0 [0..<Suc i] = Inr si'" and j: "j < n"
    have rj: "distinct (P ! j)" "length (P ! j) = d" "set (P ! j) = {..<d}"
      using row[OF nm[OF j]] by simp_all
    show "rs_scores s ! j ! (P ! j ! i) = float64_sub (rs_prev_loss si ! j) (rs_prev_loss si' ! j)"
    proof (cases "i = k")
      case True
      then have "si = sk" "si' = s" using si si' sk Suc.prems(1) by simp_all
      moreover have "P ! j ! k < d" using rj kd by (metis lessThan_iff nth_mem)
      ultimately show ?thesis using F(6)[OF j] IH(4) j True by simp
    next
      case False
      then have ik: "i < k" using i by simp
      then have "P ! j ! i \<noteq> P ! j ! k" using rj kd by (simp add: nth_eq_iff_index_eq)
      then have "rs_scores s ! j ! (P ! j ! i) = rs_scores sk ! j ! (P ! j ! i)"
        using F(6)[OF j] by simp
      then show ?thesis using IH(8) ik si si' j by simp
    qed
  qed
  show ?case using c1 c4 c5 c6 c7 c8 by blast
qed

lemma sample_permutations_valid:
  assumes "\<forall>g. distinct (fst (randperm d g)) \<and> set (fst (randperm d g)) = {..<d}"
    and "sample_permutations randperm d n g = (ps, g')"
  shows "length ps = n \<and> (\<forall>p \<in> set ps. distinct p \<and> length p = d \<and> set p = {..<d})"
  using assms(2)
proof (induction n arbitrary: g ps g')
  case 0
  then show ?case by simp
next
  case (Suc n)
  obtain p g1 where p: "randperm d g = (p, g1)" by (cases "randperm d g")
  obtain qs g2 where qs: "sample_permutations randperm d n g1 = (qs, g2)"
    by (cases "sample_permutations randperm d n g1")
  from Suc.prems p qs have ps: "ps = map (\<lambda>k. [0..<d] ! k) p # qs" by simp
  have pv: "distinct p" "set p = {..<d}" using assms(1) p by (metis fst_conv)+
  have "map (\<lambda>k. [0..<d] ! k) p = p"
    by (rule map_idI) (use pv(2) in auto)
  moreover have "length p = d" using pv by (metis card_lessThan distinct_card)
  ultimately show ?case using Suc.IH[OF qs] ps pv by simp
qed

lemma imputed_loss_m_pos:
  assumes "imputed_loss predict imp loss_fn m x S y g = Inr r"
  shows "0 < m"
  using assms
  by (cases "m = 0")
     (auto simp: imputed_loss_def replicate_mean_def reshape_replicates_def split: prod.splits)

lemma reveal_prefix_unfold_ex:
  assumes "reveal_prefix predict imp loss_fn randperm d m (x, y) g k = Inr s"
  shows "\<exists>perms g1 L0 g2.
    sample_permutations randperm d (length x) g = (perms, g1) \<and>
    imputed_loss predict imp loss_fn m (repeat_rows m x) (repeat_rows m (zeros (length x) d)) y g1
       = Inr (L0, g2) \<and>
    (\<forall>k'. reveal_prefix predict imp loss_fn randperm d m (x, y) g k' =
       for_each (reveal_step predict imp loss_fn m (length x) (repeat_rows m x) y (repeat_rows m perms))
         \<lparr>rs_S = repeat_rows m (zeros (length x) d), rs_prev_loss = L0,
          rs_scores = zeros (length x) d, rs_gen = g2\<rparr> [0..<k'])"
  using assms
  by (auto simp: reveal_prefix_def Let_def split: prod.splits sum.splits)

lemma repeat_rows_zeros_nth:
  assumes "r < n * m"
  shows "repeat_rows m (zeros n d) ! r = replicate d 0"
proof -
  have len: "length (repeat_rows m (zeros n d)) = m * n"
    by (simp add: repeat_rows_length zeros_def)
  have "r < m * n" using assms by (simp add: mult.commute)
  then have "repeat_rows m (zeros n d) ! r \<in> set (repeat_rows m (zeros n d))"
    using len by (metis nth_mem)
  then have "repeat_rows m (zeros n d) ! r \<in> set (zeros n d)"
    using repeat_rows_set[of m "zeros n d"] by (rule set_mp[rotated])
  then show ?thesis by (simp add: zeros_def)
qed

lemma reveal_prefix_invariant:
  assumes rp: "\<forall>g. distinct (fst (randperm d g)) \<and> set (fst (randperm d g)) = {..<d}"
    and lf: "\<forall>p yy. length (loss_fn p yy) = length yy" and ly: "length y = length x"
    and sp: "sample_permutations randperm d (length x) g = (perms, g1)"
    and run: "reveal_prefix predict imp loss_fn randperm d m (x, y) g k = Inr s"
    and k: "k \<le> d"
  shows "length (rs_scores s) = length x \<and>
     (\<forall>j < length x. length (rs_scores s ! j) = d) \<and>
     (\<forall>r < length x * m. \<forall>c < d.
        rs_S s ! r ! c = (if c \<in> set (take k (repeat_rows m perms ! r)) then 1 else 0)) \<and>
     (\<forall>r < length x * m. length (rs_S s ! r) = d) \<and>
     (\<forall>i < k. \<forall>si si'.
         reveal_prefix predict imp loss_fn randperm d m (x, y) g i = Inr si \<longrightarrow>
         reveal_prefix predict imp loss_fn randperm d m (x, y) g (Suc i) = Inr si' \<longrightarrow>
         (\<forall>j < length x. rs_scores s ! j ! (perms ! j ! i) = float64_sub (rs_prev_loss si ! j) (rs_prev_loss si' ! j))) \<and>
     length (rs_S s) = length x * m \<and> length (rs_prev_loss s) = length x"
proof -
  let ?n = "length x"
  from reveal_prefix_unfold_ex[OF run] obtain perms' g1' L0 g2 where
    sp': "sample_permutations randperm d ?n g = (perms', g1')"
    and il': "imputed_loss predict imp loss_fn m (repeat_rows m x) (repeat_rows m (zeros ?n d)) y g1'
       = Inr (L0, g2)"
    and unf': "\<forall>k'. reveal_prefix predict imp loss_fn randperm d m (x, y) g k' =
       for_each (reveal_step predict imp loss_fn m ?n (repeat_rows m x) y (repeat_rows m perms'))
         \<lparr>rs_S = repeat_rows m (zeros ?n d), rs_prev_loss = L0,
          rs_scores = zeros ?n d, rs_gen = g2\<rparr> [0..<k']"
    by blast
  from sp sp' have eqs: "perms' = perms" "g1' = g1" by simp_all
  have il: "imputed_loss predict imp loss_fn m (repeat_rows m x) (repeat_rows m (zeros ?n d)) y g1
       = Inr (L0, g2)" using il' eqs by simp
  have unf: "\<And>k'. reveal_prefix predict imp loss_fn randperm d m (x, y) g k' =
       for_each (reveal_step predict imp loss_fn m ?n (repeat_rows m x) y (repeat_rows m perms))
         \<lparr>rs_S = repeat_rows m (zeros ?n d), rs_prev_loss = L0,
          rs_scores = zeros ?n d, rs_gen = g2\<rparr> [0..<k']"
    using unf' eqs by simp
  let ?P = "repeat_rows m perms"
  let ?s0 = "\<lparr>rs_S = repeat_rows m (zeros ?n d), rs_prev_loss = L0,
          rs_scores = zeros ?n d, rs_gen = g2\<rparr>"
  have m: "0 < m" by (rule imputed_loss_m_pos[OF il])
  have pv: "length perms = ?n" "\<forall>p \<in> set perms. distinct p \<and> length p = d \<and> set p = {..<d}"
    using sample_permutations_valid[OF rp sp] by simp_all
  have P: "length ?P = ?n * m" using pv(1) by (simp add: repeat_rows_length)
  have perm: "\<forall>p \<in> set ?P. distinct p \<and> length p = d \<and> set p = {..<d}"
    using pv(2) repeat_rows_set[of m perms] by blast
  have i2: "length (rs_S ?s0) = ?n * m" by (simp add: repeat_rows_length zeros_def)
  have i3: "\<forall>r < ?n * m. rs_S ?s0 ! r = replicate d 0"
    using repeat_rows_zeros_nth[of _ ?n m d] by simp
  have i4: "length (rs_prev_loss ?s0) = ?n" using imputed_loss_length[OF il lf] ly by simp
  have run': "for_each (reveal_step predict imp loss_fn m ?n (repeat_rows m x) y ?P) ?s0 [0..<k] = Inr s"
    using run unfolding unf .
  have inv: "length (rs_scores s) = ?n \<and> length (rs_prev_loss s) = ?n \<and> length (rs_S s) = ?n * m \<and>
     (\<forall>j < ?n. length (rs_scores s ! j) = d) \<and>
     (\<forall>r < ?n * m. length (rs_S s ! r) = d) \<and>
     (\<forall>j < ?n. \<forall>c < d. c \<notin> set (take k (?P ! j)) \<longrightarrow> rs_scores s ! j ! c = 0) \<and>
     (\<forall>r < ?n * m. \<forall>c < d. rs_S s ! r ! c = (if c \<in> set (take k (?P ! r)) then 1 else 0)) \<and>
     (\<forall>i < k. \<forall>si si'.
         for_each (reveal_step predict imp loss_fn m ?n (repeat_rows m x) y ?P) ?s0 [0..<i] = Inr si \<longrightarrow>
         for_each (reveal_step predict imp loss_fn m ?n (repeat_rows m x) y ?P) ?s0 [0..<Suc i] = Inr si' \<longrightarrow>
         (\<forall>j < ?n. rs_scores s ! j ! (?P ! j ! i) = float64_sub (rs_prev_loss si ! j) (rs_prev_loss si' ! j)))"
    by (rule reveal_invariant[OF P m perm lf ly _ i2 i3 i4 run' k]) simp
  have Pj: "\<And>j. j < ?n \<Longrightarrow> ?P ! j = perms ! j"
    using pv(1) m by (simp add: repeat_rows_nth)
  note e = unf
  have c1: "length (rs_scores s) = ?n" using inv by blast
  have c2: "\<forall>j < ?n. length (rs_scores s ! j) = d" using inv by blast
  have c3: "\<forall>r < ?n * m. \<forall>c < d.
        rs_S s ! r ! c = (if c \<in> set (take k (?P ! r)) then 1 else 0)" using inv by blast
  have c4: "\<forall>r < ?n * m. length (rs_S s ! r) = d" using inv by blast
  have c5: "\<forall>i < k. \<forall>si si'.
         for_each (reveal_step predict imp loss_fn m ?n (repeat_rows m x) y ?P) ?s0 [0..<i] = Inr si \<longrightarrow>
         for_each (reveal_step predict imp loss_fn m ?n (repeat_rows m x) y ?P) ?s0 [0..<Suc i] = Inr si' \<longrightarrow>
         (\<forall>j < ?n. rs_scores s ! j ! (?P ! j ! i) = float64_sub (rs_prev_loss si ! j) (rs_prev_loss si' ! j))"
    using inv by blast
  have c5': "\<forall>i < k. \<forall>si si'.
         reveal_prefix predict imp loss_fn randperm d m (x, y) g i = Inr si \<longrightarrow>
         reveal_prefix predict imp loss_fn randperm d m (x, y) g (Suc i) = Inr si' \<longrightarrow>
         (\<forall>j < ?n. rs_scores s ! j ! (perms ! j ! i) = float64_sub (rs_prev_loss si ! j) (rs_prev_loss si' ! j))"
  proof (intro allI impI)
    fix i si si' j
    assume "i < k" and "reveal_prefix predict imp loss_fn randperm d m (x, y) g i = Inr si"
      and "reveal_prefix predict imp loss_fn randperm d m (x, y) g (Suc i) = Inr si'" and j: "j < ?n"
    then have "rs_scores s ! j ! (?P ! j ! i) = float64_sub (rs_prev_loss si ! j) (rs_prev_loss si' ! j)"
      using c5 unfolding e by blast
    then show "rs_scores s ! j ! (perms ! j ! i) = float64_sub (rs_prev_loss si ! j) (rs_prev_loss si' ! j)"
      using Pj[OF j] by simp
  qed
  have c6: "length (rs_S s) = ?n * m" "length (rs_prev_loss s) = ?n" using inv by simp_all
  show ?thesis using c1 c2 c3 c4 c5' c6 by blast
qed

lemma reveal_prefix_prefix_ok:
  assumes "reveal_prefix predict imp loss_fn randperm d m (x, y) g k = Inr s" and "i \<le> k"
  shows "\<exists>s'. reveal_prefix predict imp loss_fn randperm d m (x, y) g i = Inr s'"
proof -
  from reveal_prefix_unfold_ex[OF assms(1)] obtain perms g1 L0 g2 where
    unf: "\<forall>k'. reveal_prefix predict imp loss_fn randperm d m (x, y) g k' =
       for_each (reveal_step predict imp loss_fn m (length x) (repeat_rows m x) y (repeat_rows m perms))
         \<lparr>rs_S = repeat_rows m (zeros (length x) d), rs_prev_loss = L0,
          rs_scores = zeros (length x) d, rs_gen = g2\<rparr> [0..<k']"
    by blast
  show ?thesis using for_each_prefix_ok[OF assms(1)[unfolded unf[rule_format]] assms(2)]
    unfolding unf[rule_format] .
qed

lemma reveal_prefix_zero:
  assumes "reveal_prefix predict imp loss_fn randperm d m (x, y) g 0 = Inr s0"
  shows "rs_S s0 = repeat_rows m (zeros (length x) d) \<and> rs_scores s0 = zeros (length x) d \<and>
    imputed_loss predict imp loss_fn m (repeat_rows m x) (rs_S s0) y
      (snd (sample_permutations randperm d (length x) g)) = Inr (rs_prev_loss s0, rs_gen s0)"
  using assms
  by (auto simp: reveal_prefix_def Let_def split: prod.splits sum.splits)

lemma sum_list_permuted:
  fixes row :: "real list"
  assumes "length row = d" and "distinct p" and "set p = {..<d}" and "length p = d"
  shows "sum_list row = (\<Sum>i<d. row ! (p ! i))"
proof -
  have bij: "bij_betw ((!) p) {..<d} {..<d}"
    using assms(2,3,4) by (metis bij_betw_nth)
  have "sum_list row = (\<Sum>c<d. row ! c)"
    using assms(1) by (simp add: sum_list_sum_nth atLeast0LessThan)
  also have "\<dots> = (\<Sum>i<d. row ! (p ! i))"
    by (rule sum.reindex_bij_betw[OF bij, symmetric])
  finally show ?thesis .
qed

section \<open>Facts about the instance\<close>

lemma ex_randperm_valid: "\<forall>g. distinct (fst (ex_randperm d g)) \<and> set (fst (ex_randperm d g)) = {..<d}"
  by (simp add: ex_randperm_def atLeast0LessThan)

lemma ex_loss_length: "\<forall>p yy. length (ex_loss p yy) = length yy"
  by (simp add: ex_loss_def)

lemmas ex_defs = ex_predict_def ex_loss_def ex_imp_def ex_randperm_def
  reveal_prefix_def reveal_step_def imputed_loss_def replicate_mean_def reshape_replicates_def
  mean_axis0_def repeat_rows_def zeros_def assign_at_def vec_sub_def float64_evals


lemma ex_run: "reveal_prefix ex_predict ex_imp ex_loss ex_randperm 2 1 ([[1, 2]], [3]) 0 2 =
      Inr \<lparr>rs_S = [[1, 1]], rs_prev_loss = [0], rs_scores = [[5, 4]], rs_gen = 4\<rparr>"
  by (simp add: ex_defs eval_nat_numeral)

lemma ex_tie_start:
  "reveal_prefix ex_predict ex_imp ex_loss ex_randperm 2 1 ([[1, 1 / 2 ^ 27 - 1]], [0]) 0 0 =
     Inr \<lparr>rs_S = [[0, 0]], rs_prev_loss = [0], rs_scores = [[0, 0]], rs_gen = 2\<rparr>"
  by (simp add: ex_defs Let_def eval_nat_numeral)

lemma ex_tie_run:
  "reveal_prefix ex_predict ex_imp ex_loss ex_randperm 2 1 ([[1, 1 / 2 ^ 27 - 1]], [0]) 0 2 =
     Inr \<lparr>rs_S = [[1, 1]], rs_prev_loss = [1 / 2 ^ 54], rs_scores = [[- 1, 1]], rs_gen = 4\<rparr>"
proof -
  have "float64_sub 1 (1 / 18014398509481984) = 1"
    using float64_sub_tie by simp
  then show ?thesis
    by (simp add: ex_predict_def ex_loss_def ex_imp_def ex_randperm_def
      reveal_prefix_def reveal_step_def imputed_loss_def replicate_mean_def reshape_replicates_def
      mean_axis0_def repeat_rows_def zeros_def assign_at_def vec_sub_def float64_round_zero
      float64_round_one float64_round_neg_one eval_nat_numeral)
      (simp add: float64_sub_def float64_round_neg_one)
qed

lemma ex_start:
  "reveal_prefix ex_predict ex_imp ex_loss ex_randperm 2 1 ([[1, 2]], [3]) 0 0 =
     Inr \<lparr>rs_S = [[0, 0]], rs_prev_loss = [9], rs_scores = [[0, 0]], rs_gen = 2\<rparr>"
  by (simp add: ex_defs Let_def eval_nat_numeral)

lemma ex_mid:
  "reveal_prefix ex_predict ex_imp ex_loss ex_randperm 2 1 ([[1, 2]], [3]) 0 (Suc 0) =
     Inr \<lparr>rs_S = [[1, 0]], rs_prev_loss = [4], rs_scores = [[5, 0]], rs_gen = 3\<rparr>"
  by (simp add: ex_defs Let_def eval_nat_numeral)

lemma reveal_step_loss:
  assumes "reveal_step predict imp loss_fn m n x y P st i = Inr st'"
  shows "imputed_loss predict imp loss_fn m x (rs_S st') y (rs_gen st) =
           Inr (rs_prev_loss st', rs_gen st')"
  using assms by (auto simp: reveal_step_def Let_def split: sum.splits prod.splits)

lemma reveal_prefix_Suc:
  assumes sp: "sample_permutations randperm d (length x) g = (perms, g1)"
    and a: "reveal_prefix predict imp loss_fn randperm d m (x, y) g i = Inr s"
    and b: "reveal_prefix predict imp loss_fn randperm d m (x, y) g (Suc i) = Inr s'"
  shows "reveal_step predict imp loss_fn m (length x) (repeat_rows m x) y (repeat_rows m perms) s i
           = Inr s'"
proof -
  from reveal_prefix_unfold_ex[OF a] obtain perms' g1' L0 g2 where
    sp': "sample_permutations randperm d (length x) g = (perms', g1')"
    and unf: "\<forall>k'. reveal_prefix predict imp loss_fn randperm d m (x, y) g k' =
       for_each (reveal_step predict imp loss_fn m (length x) (repeat_rows m x) y (repeat_rows m perms'))
         \<lparr>rs_S = repeat_rows m (zeros (length x) d), rs_prev_loss = L0,
          rs_scores = zeros (length x) d, rs_gen = g2\<rparr> [0..<k']"
    by blast
  have eq: "perms' = perms" using sp sp' by simp
  from a b show ?thesis
    unfolding unf[rule_format] eq by (auto simp: for_each_append split: sum.splits)
qed

lemma ex_sp: "sample_permutations ex_randperm 2 (length [[1, 2 :: real]]) 0 = ([[0, 1]], Suc 0)"
  by (simp add: ex_randperm_def eval_nat_numeral)

lemma ex_ly: "length [3 :: real] = length [[1, 2 :: real]]"
  by simp

section \<open>The sampling loop and its break\<close>

lemma for_each_take_Suc_Cons:
  "for_each step st (take (Suc j) (b # bs)) =
     (case step st b of Inl e \<Rightarrow> Inl e | Inr st' \<Rightarrow> for_each step st' (take j bs))"
  by simp

lemma sampling_loop_no_break:
  assumes "\<forall>j < length bs. \<forall>s. for_each step st (take (Suc j) bs) = Inr s \<longrightarrow> stop s = Inr False"
  shows "sampling_loop step stop st bs = for_each step st bs"
  using assms
proof (induction bs arbitrary: st)
  case Nil
  then show ?case by simp
next
  case (Cons b bs)
  show ?case
  proof (cases "step st b")
    case (Inl e)
    then show ?thesis by simp
  next
    case (Inr st')
    have "for_each step st (take (Suc 0) (b # bs)) = Inr st'" using Inr by simp
    then have nb: "stop st' = Inr False" using Cons.prems by blast
    have "\<forall>j < length bs. \<forall>s. for_each step st' (take (Suc j) bs) = Inr s \<longrightarrow> stop s = Inr False"
    proof (intro allI impI)
      fix j s assume j: "j < length bs" and s: "for_each step st' (take (Suc j) bs) = Inr s"
      have "for_each step st (take (Suc (Suc j)) (b # bs)) = Inr s" using Inr s by simp
      moreover have "Suc j < length (b # bs)" using j by simp
      ultimately show "stop s = Inr False" using Cons.prems by blast
    qed
    from Cons.IH[OF this] show ?thesis using Inr nb by simp
  qed
qed

lemma sampling_loop_first_break:
  assumes "k < length bs" and "for_each step st (take (Suc k) bs) = Inr sk" and "stop sk = Inr True"
    and "\<forall>j < k. \<forall>s. for_each step st (take (Suc j) bs) = Inr s \<longrightarrow> stop s = Inr False"
  shows "sampling_loop step stop st bs = Inr sk"
  using assms
proof (induction bs arbitrary: st k)
  case Nil
  then show ?case by simp
next
  case (Cons b bs)
  from Cons.prems(2) obtain st' where st': "step st b = Inr st'"
    and rest: "for_each step st' (take k bs) = Inr sk"
    by (auto split: sum.splits)
  show ?case
  proof (cases k)
    case 0
    then have "st' = sk" using rest by simp
    then show ?thesis using st' Cons.prems(3) by simp
  next
    case (Suc k')
    have "for_each step st (take (Suc 0) (b # bs)) = Inr st'" using st' by simp
    then have nb: "stop st' = Inr False" using Cons.prems(4) Suc by blast
    have a: "k' < length bs" using Cons.prems(1) Suc by simp
    have b: "for_each step st' (take (Suc k') bs) = Inr sk" using rest Suc by simp
    have c: "\<forall>j < k'. \<forall>s. for_each step st' (take (Suc j) bs) = Inr s \<longrightarrow> stop s = Inr False"
    proof (intro allI impI)
      fix j s assume j: "j < k'" and s: "for_each step st' (take (Suc j) bs) = Inr s"
      have "for_each step st (take (Suc (Suc j)) (b # bs)) = Inr s" using st' s by simp
      moreover have "Suc j < k" using j Suc by simp
      ultimately show "stop s = Inr False" using Cons.prems(4) by blast
    qed
    from Cons.IH[OF a b Cons.prems(3) c] show ?thesis using st' nb by simp
  qed
qed

lemma permutation_stop_eq:
  assumes "tracker_var T (fst st) \<noteq> []"
  shows "permutation_stop T detect thr tot st =
     Inr (detect \<and> ratio_below (np_sqrt (Max (set (tracker_var T (fst st))))) tot thr)"
  using assms by (simp add: permutation_stop_def np_max_def Let_def)

lemma ratio_below_nonzero:
  assumes "t \<noteq> 0" and "0 \<le> v"
  shows "ratio_below (np_sqrt v) (Some t) thr = (sqrt v / t < thr)"
  using assms by (simp add: ratio_below_def np_sqrt_def)

lemmas ex_batch_defs = permutation_batch_def ex_tracker_def ex_loader_def

lemma ex_prefix1:
  "for_each (permutation_batch ex_predict ex_imp ex_loss ex_randperm ex_tracker 2 1) ([], 0)
     (take (Suc 0) ex_loader) = Inr ([[[5, 4]]], 4)"
  by (simp add: ex_defs ex_batch_defs eval_nat_numeral)

lemma ex_prefix2:
  "for_each (permutation_batch ex_predict ex_imp ex_loss ex_randperm ex_tracker 2 1) ([], 0)
     (take (Suc (Suc 0)) ex_loader) = Inr ([[[5, 4]], [[0, 0]]], 8)"
  by (simp add: ex_defs ex_batch_defs eval_nat_numeral)

lemma ex_all:
  "for_each (permutation_batch ex_predict ex_imp ex_loss ex_randperm ex_tracker 2 1) ([], 0)
     ex_loader = Inr ([[[5, 4]], [[0, 0]], [[- 1, - 3]]], 12)"
  by (simp add: ex_defs ex_batch_defs eval_nat_numeral)

lemmas total_defs = estimate_total_def pass1_step_def pass1_init_def update_mean_def
  update_marginal_def np_mean_def col_means_def float_sub_def vec_add_def

lemma ex_total: "estimate_total ex_predict ex_loss ex_near_zero = Inr (Some (- 1 / 10000))"
  by (simp add: total_defs ex_near_zero_def ex_predict_def ex_loss_def eval_nat_numeral)

lemmas stop_defs = permutation_stop_def iterated_stop_def np_max_def np_sqrt_def ratio_below_def

lemma ex_perm_run:
  "permutation_sampling ex_predict ex_imp ex_loss ex_randperm ex_tracker 2 ex_near_zero ex_loader 1
     True (1 / 100) 0 = ([], Inr [[[5, 4]]])"
  by (simp add: permutation_sampling_def clamp_m_samples_def ex_total ex_defs ex_batch_defs
      stop_defs eval_nat_numeral)

lemma ex_iter_run:
  "iterated_sampling ex_predict ex_imp ex_loss ex_sampler ex_tracker1 2 ex_near_zero
     (\<lambda>ind. ex_loader) 1 True (1 / 100) 0 = ([], Inr [[[5]], [[4]]])"
  by (simp add: iterated_sampling_def feature_loop_def iterated_batch_def np_stack_def
      set_column_def ex_sampler_def ex_tracker1_def ex_loader_def
      clamp_m_samples_def ex_total ex_defs stop_defs eval_nat_numeral)

lemma ratio_below_zero_total: "ratio_below conf (Some 0) thr = False"
  by (simp add: ratio_below_def split: option.splits)

section \<open>One minibatch of the iterated estimator\<close>






section \<open>Results that are returned\<close>

lemma update_marginal_not_zero: "update_marginal N old n v \<noteq> PyZero"
  by (simp add: update_marginal_def split: option.splits pred_acc.splits)

lemma pass1_marginal_not_zero:
  assumes "bs \<noteq> []"
  shows "ts_marginal_pred (foldl (pass1_step predict loss_fn) st bs) \<noteq> PyZero"
  using assms
proof (induction bs rule: rev_induct)
  case Nil
  then show ?case by simp
next
  case (snoc b bs)
  show ?case
    by (cases b) (simp add: pass1_step_def Let_def update_marginal_not_zero)
qed

lemma pass2_ok:
  assumes "mp \<noteq> PyZero"
  shows "\<exists>r. pass2 loss_fn mp N ml bs = Inr r"
  using assms
  by (induction bs arbitrary: N ml) (auto simp: Let_def split: pred_acc.splits)

lemma estimate_total_ok: "\<exists>tot. estimate_total predict loss_fn bs = Inr tot"
proof (cases "bs = []")
  case True
  then show ?thesis by (simp add: estimate_total_def)
next
  case False
  from pass2_ok[OF pass1_marginal_not_zero[OF False]]
  obtain r where "pass2 loss_fn (ts_marginal_pred (foldl (pass1_step predict loss_fn) pass1_init bs))
      0 (Some 0) bs = Inr r" by blast
  then show ?thesis by (simp add: estimate_total_def)
qed

lemma imputed_loss_ok:
  assumes "0 < m" and "\<forall>g X S. length (predict (fst (impute imp g X S))) = length X"
  shows "\<exists>r. imputed_loss predict imp loss_fn m (repeat_rows m x) S y g = Inr r"
proof -
  obtain xi g' where i: "impute imp g (repeat_rows m x) S = (xi, g')"
    by (cases "impute imp g (repeat_rows m x) S")
  have "length (predict xi) = length (repeat_rows m x)" using assms(2) i by (metis fst_conv)
  then have "length (predict xi) mod m = 0" by (simp add: repeat_rows_length)
  then show ?thesis using assms(1) i
    by (simp add: imputed_loss_def replicate_mean_def reshape_replicates_def)
qed

lemma iterated_batch_ok:
  assumes "0 < m" and "\<forall>g X S. length (predict (fst (impute imp g X S))) = length X"
  shows "\<exists>r. iterated_batch predict imp loss_fn sampler T d m ind st b = Inr r"
proof -
  obtain tracker g where st: "st = (tracker, g)" by (cases st)
  obtain x y where b: "b = (x, y)" by (cases b)
  obtain S0 g1 where s: "sampler d (length x) ind g = (S0, g1)"
    by (cases "sampler d (length x) ind g")
  from imputed_loss_ok[OF assms] obtain l0 g2 where
    e0: "imputed_loss predict imp loss_fn m (repeat_rows m x) (repeat_rows m S0) y g1 = Inr (l0, g2)"
    by (metis surj_pair)
  from imputed_loss_ok[OF assms] obtain l1 g3 where
    e1: "imputed_loss predict imp loss_fn m (repeat_rows m x) (set_column ind (repeat_rows m S0)) y g2
      = Inr (l1, g3)"
    by (metis surj_pair)
  show ?thesis using st b s e0 e1 by (simp add: iterated_batch_def)
qed

lemma sampling_loop_ok:
  assumes "\<forall>st b. \<exists>st'. step st b = Inr st'" and "\<forall>st. \<exists>v. stop st = Inr v"
  shows "\<exists>st'. sampling_loop step stop st bs = Inr st'"
proof (induction bs arbitrary: st)
  case Nil
  show ?case by simp
next
  case (Cons b bs)
  from assms(1) obtain st' where s: "step st b = Inr st'" by blast
  from assms(2) obtain v where v: "stop st' = Inr v" by blast
  show ?case using s v Cons.IH[of st'] by (cases v) simp_all
qed

lemma iterated_stop_eq:
  "iterated_stop T detect thr tot st =
     Inr (detect \<and> ratio_below (np_sqrt (tracker_var T (fst st))) tot thr)"
  by (simp add: iterated_stop_def Let_def)

lemma iterated_stop_ok: "\<exists>v. iterated_stop T detect thr tot st = Inr v"
  by (simp add: iterated_stop_eq)

lemma iterated_features_rows:
  assumes "\<forall>ind g. \<exists>r. run ind g = Inr r"
  shows "\<exists>rows gs. iterated_features run score inds g = Inr rows \<and> length rows = length inds \<and>
     length gs = Suc (length inds) \<and> gs ! 0 = g \<and>
     (\<forall>k < length inds. \<exists>tr. run (inds ! k) (gs ! k) = Inr (tr, gs ! Suc k) \<and> rows ! k = score tr)"
proof (induction inds arbitrary: g)
  case Nil
  show ?case by (intro exI[of _ "[]"] exI[of _ "[g]"]) simp
next
  case (Cons ind inds)
  from assms obtain tr g' where r: "run ind g = Inr (tr, g')" by (metis surj_pair)
  from Cons.IH[of g'] obtain rows gs where
    ih: "iterated_features run score inds g' = Inr rows" "length rows = length inds"
      "length gs = Suc (length inds)" "gs ! 0 = g'"
      "\<forall>k < length inds. \<exists>tr. run (inds ! k) (gs ! k) = Inr (tr, gs ! Suc k) \<and> rows ! k = score tr"
    by blast
  have a: "iterated_features run score (ind # inds) g = Inr (score tr # rows)"
    using r ih(1) by simp
  have b: "\<forall>k < length (ind # inds). \<exists>tr'. run ((ind # inds) ! k) ((g # gs) ! k) =
      Inr (tr', (g # gs) ! Suc k) \<and> (score tr # rows) ! k = score tr'"
  proof (intro allI impI)
    fix k assume k: "k < length (ind # inds)"
    show "\<exists>tr'. run ((ind # inds) ! k) ((g # gs) ! k) =
      Inr (tr', (g # gs) ! Suc k) \<and> (score tr # rows) ! k = score tr'"
    proof (cases k)
      case 0
      then show ?thesis using r ih(4) by simp
    next
      case (Suc k')
      then have "k' < length inds" using k by simp
      then show ?thesis using ih(5) Suc by simp
    qed
  qed
  show ?case
    by (intro exI[of _ "score tr # rows"] exI[of _ "g # gs"] conjI)
       (use a b ih in simp_all)
qed

lemma ex_shape: "\<forall>g X S. length (ex_predict (fst (impute ex_imp g X S))) = length X"
  by (simp add: ex_predict_def ex_imp_def)

lemma for_each_ok:
  assumes "\<forall>st i. \<exists>st'. body st i = Inr st'"
  shows "\<exists>st'. for_each body st xs = Inr st'"
proof (induction xs arbitrary: st)
  case Nil
  show ?case by simp
next
  case (Cons i xs)
  from assms obtain st' where "body st i = Inr st'" by blast
  then show ?case using Cons.IH[of st'] by simp
qed

lemma reveal_step_ok:
  assumes "0 < m" and "\<forall>g X S. length (predict (fst (impute imp g X S))) = length X"
  shows "\<exists>st'. reveal_step predict imp loss_fn m n (repeat_rows m x) y P st i = Inr st'"
proof -
  from imputed_loss_ok[OF assms] obtain r where
    "imputed_loss predict imp loss_fn m (repeat_rows m x)
       (assign_at (rs_S st) [0..<n * m] (map (\<lambda>p. p ! i) P) (replicate (n * m) 1)) y (rs_gen st)
     = Inr r" by blast
  then show ?thesis by (cases r) (simp add: reveal_step_def Let_def)
qed

lemma permutation_batch_ok:
  assumes "0 < m" and "\<forall>g X S. length (predict (fst (impute imp g X S))) = length X"
  shows "\<exists>r. permutation_batch predict imp loss_fn randperm T d m st b = Inr r"
proof -
  obtain tracker g where st: "st = (tracker, g)" by (cases st)
  obtain x y where b: "b = (x, y)" by (cases b)
  obtain perms g1 where sp: "sample_permutations randperm d (length x) g = (perms, g1)"
    by (cases "sample_permutations randperm d (length x) g")
  from imputed_loss_ok[OF assms] obtain L0 g2 where
    e0: "imputed_loss predict imp loss_fn m (repeat_rows m x) (repeat_rows m (zeros (length x) d)) y g1
      = Inr (L0, g2)"
    by (metis surj_pair)
  have "\<forall>st i. \<exists>st'. reveal_step predict imp loss_fn m (length x) (repeat_rows m x) y
      (repeat_rows m perms) st i = Inr st'"
    using reveal_step_ok[OF assms] by blast
  from for_each_ok[OF this] obtain rs where
    "for_each (reveal_step predict imp loss_fn m (length x) (repeat_rows m x) y (repeat_rows m perms))
       \<lparr>rs_S = repeat_rows m (zeros (length x) d), rs_prev_loss = L0,
        rs_scores = zeros (length x) d, rs_gen = g2\<rparr> [0..<d] = Inr rs"
    by blast
  then show ?thesis using st b sp e0
    by (simp add: permutation_batch_def reveal_prefix_def)
qed

lemma permutation_sampling_ok:
  fixes T :: "('tr, matrix, vec, 's, 'y) importance_tracker_scheme" and g :: 'g
  assumes "is_module imp" and "0 < fst (clamp_m_samples imp m_samples)"
    and "\<forall>g X S. length (predict (fst (impute imp g X S))) = length X"
    and var: "\<forall>tr. tracker_var T tr \<noteq> []"
  shows "\<exists>sc. snd (permutation_sampling predict imp loss_fn randperm T d batches loader m_samples
      detect thr g) = Inr sc"
proof -
  obtain tot where tot: "estimate_total predict loss_fn batches = Inr tot"
    using estimate_total_ok by blast
  obtain mm out where cl: "clamp_m_samples imp m_samples = (mm, out)"
    by (cases "clamp_m_samples imp m_samples")
  have mm: "0 < mm" using assms(2) cl by simp
  have step_ok: "\<forall>st b. \<exists>st'. permutation_batch predict imp loss_fn randperm T d mm st b = Inr st'"
    using permutation_batch_ok[OF mm assms(3)] by blast
  have stop_ok: "\<forall>st :: 'tr \<times> 'g. \<exists>v. permutation_stop T detect thr tot st = Inr v"
    using var by (simp add: permutation_stop_eq)
  from sampling_loop_ok[OF step_ok stop_ok] obtain st' where
    "sampling_loop (permutation_batch predict imp loss_fn randperm T d mm)
       (permutation_stop T detect thr tot) (tracker_new T, g) loader = Inr st'" by blast
  then show ?thesis using assms(1) tot cl by (simp add: permutation_sampling_def)
qed

lemma iterated_sampling_ok:
  fixes T :: "('tr, vec, real, 's, 'y) importance_tracker_scheme" and g :: 'g
  assumes "is_module imp" and m: "0 < fst (clamp_m_samples imp m_samples)"
    and shape: "\<forall>g X S. length (predict (fst (impute imp g X S))) = length X"
    and d: "0 < input_size"
  shows "\<exists>rows. snd (iterated_sampling predict imp loss_fn sampler T input_size batches loader
      m_samples detect thr g) = Inr rows"
proof -
  let ?m = "fst (clamp_m_samples imp m_samples)"
  obtain tot where tot: "estimate_total predict loss_fn batches = Inr tot"
    using estimate_total_ok by blast
  let ?run = "feature_loop predict imp loss_fn sampler T input_size ?m detect thr tot loader"
  have step_ok: "\<And>ind. \<forall>st b. \<exists>st'. iterated_batch predict imp loss_fn sampler T input_size ?m ind
      st b = Inr st'"
    using iterated_batch_ok[OF m shape] by blast
  have stop_ok: "\<forall>st :: 'tr \<times> 'g. \<exists>v. iterated_stop T detect thr tot st = Inr v"
    using iterated_stop_ok by blast
  have run_ok: "\<forall>ind g. \<exists>r. ?run ind g = Inr r"
    unfolding feature_loop_def
    using sampling_loop_ok[OF step_ok stop_ok] by blast
  from iterated_features_rows[OF run_ok, of "tracker_scores T" "[0..<input_size]" g]
  obtain rows where
    f: "iterated_features ?run (tracker_scores T) [0..<input_size] g = Inr rows"
    and lr: "length rows = input_size"
    by auto
  have ne: "rows \<noteq> []" using lr d by auto
  obtain mm out where cl: "clamp_m_samples imp m_samples = (mm, out)"
    by (cases "clamp_m_samples imp m_samples")
  show ?thesis using assms(1) tot f ne cl by (simp add: iterated_sampling_def np_stack_def)
qed



lemma ex_perm_run5:
  "permutation_sampling ex_predict ex_imp ex_loss ex_randperm ex_tracker 2 ex_near_zero ex_loader 1
     False (1 / 100) 0 = ([], Inr [[[5, 4]], [[0, 0]], [[- 1, - 3]]])"
  by (simp add: permutation_sampling_def clamp_m_samples_def ex_total ex_defs ex_batch_defs
      stop_defs eval_nat_numeral)

section \<open>\<^verbatim>\<open>estimate_total\<close> and the running averages\<close>

lemma vec_add_length: "length (vec_add u v) = min (length u) (length v)"
  by (simp add: vec_add_def)

lemma vec_add_nth: "c < length u \<Longrightarrow> c < length v \<Longrightarrow> vec_add u v ! c = u ! c + v ! c"
  by (simp add: vec_add_def)

lemma foldl_vec_add_nth:
  assumes "\<forall>row \<in> set (r # rs). length row = k"
  shows "length (foldl vec_add r rs) = k \<and>
    (\<forall>c < k. foldl vec_add r rs ! c = (\<Sum>row\<leftarrow>r # rs. row ! c))"
  using assms
proof (induction rs rule: rev_induct)
  case Nil
  then show ?case by simp
next
  case (snoc q rs)
  then have ih: "length (foldl vec_add r rs) = k"
    "\<forall>c < k. foldl vec_add r rs ! c = (\<Sum>row\<leftarrow>r # rs. row ! c)" by simp_all
  have q: "length q = k" using snoc.prems by simp
  show ?case using ih q by (simp add: vec_add_length vec_add_nth)
qed

lemma col_means_spec:
  assumes "pred \<noteq> []" and "\<forall>row \<in> set pred. length row = k"
  shows "col_means pred = Some (spec_mean_row k pred)"
proof -
  obtain r rs where p: "pred = r # rs" using assms(1) by (cases pred) simp_all
  have f: "length (foldl vec_add r rs) = k"
    "\<forall>c < k. foldl vec_add r rs ! c = (\<Sum>row\<leftarrow>r # rs. row ! c)"
    using foldl_vec_add_nth[of r rs k] assms(2) p by simp_all
  have "map (\<lambda>v. v / real (length pred)) (foldl vec_add r rs) = spec_mean_row k pred"
    unfolding spec_mean_row_def p
    by (rule nth_equalityI) (use f in simp_all)
  then show ?thesis using p by (simp add: col_means_def)
qed

lemma np_mean_spec: "v \<noteq> [] \<Longrightarrow> np_mean v = Some (spec_mean v)"
  by (simp add: np_mean_def spec_mean_def)

lemma map2_replicate_zero:
  fixes f :: "real \<Rightarrow> real \<Rightarrow> real"
  assumes "length b = k"
  shows "map2 f (replicate k 0) b = map (f 0) b"
  by (rule nth_equalityI) (use assms in simp_all)

lemma pass1_step_wf:
  assumes x: "fst b \<noteq> []" and y: "length (snd b) = length (fst b)"
    and pr: "\<forall>X. length (predict X) = length X"
    and pw: "\<forall>X. \<forall>row \<in> set (predict X). length row = k"
    and lf: "\<forall>p yy. length (loss_fn p yy) = length yy"
    and a: "ts_mean_loss st = Some a"
    and rel: "ts_marginal_pred st = Row v \<or> (ts_marginal_pred st = PyZero \<and> ts_N st = 0 \<and> v = replicate k 0)"
    and v: "length v = k"
  shows "ts_N (pass1_step predict loss_fn st b) = ts_N st + length (fst b)"
    and "ts_mean_loss (pass1_step predict loss_fn st b) =
      Some ((real (ts_N st) * a + real (length (fst b)) * spec_mean (loss_fn (predict (fst b)) (snd b)))
            / real (ts_N st + length (fst b)))"
    and "ts_marginal_pred (pass1_step predict loss_fn st b) =
      Row (map2 (\<lambda>u w. (real (ts_N st) * u + real (length (fst b)) * w) / real (ts_N st + length (fst b)))
             v (spec_mean_row k (predict (fst b))))"
proof -
  obtain xx yy where b: "b = (xx, yy)" by (cases b)
  have n: "0 < length xx" using x b by simp
  have loss: "loss_fn (predict xx) yy \<noteq> []" using lf y b n by (metis length_greater_0_conv fst_conv snd_conv)
  have pred: "predict xx \<noteq> []" using pr n by (metis length_greater_0_conv)
  have cm: "col_means (predict xx) = Some (spec_mean_row k (predict xx))"
    using col_means_spec[OF pred] pw by simp
  have smr: "length (spec_mean_row k (predict xx)) = k" by (simp add: spec_mean_row_def)
  show "ts_N (pass1_step predict loss_fn st b) = ts_N st + length (fst b)"
    using b by (simp add: pass1_step_def Let_def)
  show "ts_mean_loss (pass1_step predict loss_fn st b) =
      Some ((real (ts_N st) * a + real (length (fst b)) * spec_mean (loss_fn (predict (fst b)) (snd b)))
            / real (ts_N st + length (fst b)))"
    using b a n np_mean_spec[OF loss] by (simp add: pass1_step_def Let_def update_mean_def)
  from rel show "ts_marginal_pred (pass1_step predict loss_fn st b) =
      Row (map2 (\<lambda>u w. (real (ts_N st) * u + real (length (fst b)) * w) / real (ts_N st + length (fst b)))
             v (spec_mean_row k (predict (fst b))))"
  proof
    assume "ts_marginal_pred st = Row v"
    then show ?thesis using b n cm by (simp add: pass1_step_def Let_def update_marginal_def)
  next
    assume z: "ts_marginal_pred st = PyZero \<and> ts_N st = 0 \<and> v = replicate k 0"
    then show ?thesis using b n cm map2_replicate_zero[OF smr]
      by (simp add: pass1_step_def Let_def update_marginal_def)
  qed
qed

lemma pass1_refines:
  assumes wf: "\<forall>b \<in> set bs. fst b \<noteq> [] \<and> length (snd b) = length (fst b)"
    and pr: "\<forall>X. length (predict X) = length X"
    and pw: "\<forall>X. \<forall>row \<in> set (predict X). length row = k"
    and lf: "\<forall>p yy. length (loss_fn p yy) = length yy"
    and a: "ts_mean_loss st = Some a"
    and rel: "ts_marginal_pred st = Row v \<or> (ts_marginal_pred st = PyZero \<and> ts_N st = 0 \<and> v = replicate k 0)"
    and v: "length v = k"
  shows "ts_N (foldl (pass1_step predict loss_fn) st bs) = ts_N st + sum_list (map (\<lambda>b. length (fst b)) bs) \<and>
    ts_mean_loss (foldl (pass1_step predict loss_fn) st bs) =
      Some (spec_running_mean
        (map (\<lambda>b. (length (fst b), spec_mean (loss_fn (predict (fst b)) (snd b)))) bs) (ts_N st) a) \<and>
    (bs \<noteq> [] \<longrightarrow> ts_marginal_pred (foldl (pass1_step predict loss_fn) st bs) =
      Row (spec_running_mean_row
        (map (\<lambda>b. (length (fst b), spec_mean_row k (predict (fst b)))) bs) (ts_N st) v))"
  using wf a rel v
proof (induction bs arbitrary: st a v)
  case Nil
  then show ?case by simp
next
  case (Cons b bs)
  let ?st = "pass1_step predict loss_fn st b"
  let ?n = "length (fst b)"
  let ?a = "(real (ts_N st) * a + real ?n * spec_mean (loss_fn (predict (fst b)) (snd b)))
            / real (ts_N st + ?n)"
  let ?v = "map2 (\<lambda>u w. (real (ts_N st) * u + real ?n * w) / real (ts_N st + ?n))
             v (spec_mean_row k (predict (fst b)))"
  have x: "fst b \<noteq> []" and y: "length (snd b) = length (fst b)" using Cons.prems(1) by simp_all
  note S = pass1_step_wf[OF x y pr pw lf Cons.prems(2) Cons.prems(3) Cons.prems(4)]
  have wf': "\<forall>b \<in> set bs. fst b \<noteq> [] \<and> length (snd b) = length (fst b)"
    using Cons.prems(1) by simp
  have lv: "length ?v = k" using Cons.prems(4) by (simp add: spec_mean_row_def)
  have rel': "ts_marginal_pred ?st = Row ?v \<or>
      (ts_marginal_pred ?st = PyZero \<and> ts_N ?st = 0 \<and> ?v = replicate k 0)"
    using S(3) by simp
  note IH = Cons.IH[OF wf' S(2) rel' lv]
  show ?case
  proof (cases "bs = []")
    case True
    then show ?thesis using S by simp
  next
    case False
    then show ?thesis using IH S(1) by (simp add: add.assoc)
  qed
qed

lemma pass2_refines:
  assumes wf: "\<forall>b \<in> set bs. fst b \<noteq> [] \<and> length (snd b) = length (fst b)"
    and lf: "\<forall>p yy. length (loss_fn p yy) = length yy"
  shows "pass2 loss_fn (Row v) N (Some a) bs =
    Inr (Some (spec_running_mean
       (map (\<lambda>b. (length (fst b), spec_mean (loss_fn (replicate (length (snd b)) v) (snd b)))) bs)
       N a))"
  using wf
proof (induction bs arbitrary: N a)
  case Nil
  then show ?case by simp
next
  case (Cons b bs)
  have x: "fst b \<noteq> []" and y: "length (snd b) = length (fst b)" using Cons.prems by simp_all
  have "length (loss_fn (replicate (length (snd b)) v) (snd b)) = length (fst b)"
    using lf y by simp
  then have loss: "loss_fn (replicate (length (snd b)) v) (snd b) \<noteq> []" using x by auto
  have wf': "\<forall>b \<in> set bs. fst b \<noteq> [] \<and> length (snd b) = length (fst b)"
    using Cons.prems by simp
  show ?case using x Cons.IH[OF wf'] np_mean_spec[OF loss]
    by (simp add: Let_def update_mean_def)
qed

lemma estimate_total_refines:
  assumes wf: "\<forall>b \<in> set bs. fst b \<noteq> [] \<and> length (snd b) = length (fst b)"
    and pr: "\<forall>X. length (predict X) = length X"
    and pw: "\<forall>X. \<forall>row \<in> set (predict X). length row = k"
    and lf: "\<forall>p yy. length (loss_fn p yy) = length yy"
  shows "estimate_total predict loss_fn bs = Inr (Some (spec_total predict loss_fn k bs))"
proof (cases "bs = []")
  case True
  then show ?thesis
    by (simp add: estimate_total_def pass1_init_def float_sub_def spec_total_def
        spec_marginal_loss_def spec_mean_loss_def)
next
  case False
  have init: "ts_mean_loss pass1_init = Some 0" "ts_N pass1_init = 0"
    "ts_marginal_pred pass1_init = Row (replicate k 0) \<or>
      (ts_marginal_pred pass1_init = PyZero \<and> ts_N pass1_init = 0 \<and> replicate k 0 = replicate k 0)"
    by (simp_all add: pass1_init_def)
  have lk: "length (replicate k (0 :: real)) = k" by simp
  note P1 = pass1_refines[OF wf pr pw lf init(1) init(3) lk]
  have ml: "ts_mean_loss (foldl (pass1_step predict loss_fn) pass1_init bs) =
      Some (spec_mean_loss predict loss_fn bs)"
    using P1 init(2) by (simp add: spec_mean_loss_def)
  have mp: "ts_marginal_pred (foldl (pass1_step predict loss_fn) pass1_init bs) =
      Row (spec_marginal_pred predict k bs)"
    using P1 init(2) False by (simp add: spec_marginal_pred_def)
  have p2: "pass2 loss_fn (Row (spec_marginal_pred predict k bs)) 0 (Some 0) bs =
      Inr (Some (spec_marginal_loss predict loss_fn k bs))"
    using pass2_refines[OF wf lf] by (simp add: spec_marginal_loss_def)
  show ?thesis using ml mp p2
    by (simp add: estimate_total_def float_sub_def spec_total_def)
qed

lemma ex_predict_shape: "\<forall>X. length (ex_predict X) = length X"
  by (simp add: ex_predict_def)

lemma ex_predict_width: "\<forall>X. \<forall>row \<in> set (ex_predict X). length row = 1"
  by (auto simp: ex_predict_def)

lemma ex_near_zero_wf: "\<forall>b \<in> set ex_near_zero. fst b \<noteq> [] \<and> length (snd b) = length (fst b)"
  by (simp add: ex_near_zero_def)

section \<open>The sequential loader\<close>










section \<open>Claims\<close>

text \<open>
  C4. Every model evaluation of both estimators (the baseline and the reveal steps of
  \<open>reveal_prefix\<close> and \<open>reveal_step\<close>, and the two evaluations of \<open>iterated_batch\<close>) is
  \<open>imputed_loss\<close>. For a batch of \<open>n\<close> examples tiled \<open>m\<close> times, with predictions of
  width \<open>k\<close>, its loss is the loss function applied once, to the \<open>n\<close> labels and to the
  \<open>n\<close> rows of predictions averaged over the \<open>m\<close> replicates: entry \<open>(j, c)\<close> of the
  averaged predictions is the mean of the entries \<open>(r * n + j, c)\<close> over the replicates
  \<open>r\<close>. The loss is not computed per replicate.
\<close>

theorem imputed_loss_of_averaged_predictions:
  assumes "0 < m" and "impute imp g x S = (xi, g')" and "length (predict xi) = m * n"
    and "\<forall>row \<in> set (predict xi). length row = k"
  shows "imputed_loss predict imp loss_fn m x S y g =
     Inr (loss_fn (map (\<lambda>j. map (\<lambda>c. (\<Sum>r<m. predict xi ! (r * n + j) ! c) / real m) [0..<k])
                    [0..<n]) y, g')"
  using assms reshape_replicates_blocks[OF assms(1,3)] mean_axis0_blocks[OF assms(1,3,4)]
  by (simp add: imputed_loss_def replicate_mean_def)

theorem imputed_loss_of_averaged_predictions_witness:
  "imputed_loss ex_predict ex_imp ex_loss 2 [[0], [2]] [[1], [1]] [1] 0 = Inr ([0], Suc 0)"
  using imputed_loss_of_averaged_predictions
    [of 2 ex_imp 0 "[[0], [2]]" "[[1], [1]]" "[[0], [2]]" "Suc 0" ex_predict 1 1 ex_loss "[1]"]
  by (simp add: ex_imp_def ex_predict_def ex_loss_def eval_nat_numeral)

text \<open>
  C10. The scores of one example do not sum exactly to its baseline loss minus its final
  loss: each score is a float64 difference, rounded on its own. Take the model that sums
  the features, the reference value 0, the squared error, the identity permutation, and
  the one example \<open>x = [1, 1 / 2 ^ 27 - 1]\<close> with label 0. The kept losses are 0 (no
  feature), 1 (the first feature) and \<open>1 / 2 ^ 54\<close> (both features); every step of the
  model and of the loss is exact in float64 here. The scores are \<open>0 - 1 = - 1\<close> and
  \<open>1 - 1 / 2 ^ 54\<close>, which lies halfway between two float64 numbers and rounds to 1.
  So the scores sum to 0, where the baseline loss minus the final loss is
  \<open>- (1 / 2 ^ 54)\<close>, itself a float64 number.
\<close>

theorem rounded_scores_counterexample:
  "reveal_prefix ex_predict ex_imp ex_loss ex_randperm 2 1 ([[1, 1 / 2 ^ 27 - 1]], [0]) 0 0 =
     Inr \<lparr>rs_S = [[0, 0]], rs_prev_loss = [0], rs_scores = [[0, 0]], rs_gen = 2\<rparr> \<and>
   reveal_prefix ex_predict ex_imp ex_loss ex_randperm 2 1 ([[1, 1 / 2 ^ 27 - 1]], [0]) 0 2 =
     Inr \<lparr>rs_S = [[1, 1]], rs_prev_loss = [1 / 2 ^ 54], rs_scores = [[- 1, 1]], rs_gen = 4\<rparr> \<and>
   sum_list (rs_scores (projr (reveal_prefix ex_predict ex_imp ex_loss ex_randperm 2 1
       ([[1, 1 / 2 ^ 27 - 1]], [0]) 0 2)) ! 0) = 0 \<and>
   rs_prev_loss (projr (reveal_prefix ex_predict ex_imp ex_loss ex_randperm 2 1
       ([[1, 1 / 2 ^ 27 - 1]], [0]) 0 0)) ! 0 -
   rs_prev_loss (projr (reveal_prefix ex_predict ex_imp ex_loss ex_randperm 2 1
       ([[1, 1 / 2 ^ 27 - 1]], [0]) 0 2)) ! 0 = - (1 / 2 ^ 54) \<and>
   float64_sub
     (rs_prev_loss (projr (reveal_prefix ex_predict ex_imp ex_loss ex_randperm 2 1
       ([[1, 1 / 2 ^ 27 - 1]], [0]) 0 0)) ! 0)
     (rs_prev_loss (projr (reveal_prefix ex_predict ex_imp ex_loss ex_randperm 2 1
       ([[1, 1 / 2 ^ 27 - 1]], [0]) 0 2)) ! 0) = - (1 / 2 ^ 54) \<and>
   sum_list (rs_scores (projr (reveal_prefix ex_predict ex_imp ex_loss ex_randperm 2 1
       ([[1, 1 / 2 ^ 27 - 1]], [0]) 0 2)) ! 0) \<noteq>
   rs_prev_loss (projr (reveal_prefix ex_predict ex_imp ex_loss ex_randperm 2 1
       ([[1, 1 / 2 ^ 27 - 1]], [0]) 0 0)) ! 0 -
   rs_prev_loss (projr (reveal_prefix ex_predict ex_imp ex_loss ex_randperm 2 1
       ([[1, 1 / 2 ^ 27 - 1]], [0]) 0 2)) ! 0"
  unfolding ex_tie_start ex_tie_run
  using float64_sub_neg_pow54 by simp

text \<open>
  C10, as the code has it. When the reveal loop of a batch has run over all \<open>d\<close>
  positions (state \<open>sd\<close>), every shorter run of the loop has returned too; the mask
  started all zero and ends all one. Write \<open>L j i\<close> for the loss of example \<open>j\<close> that is
  kept after \<open>i\<close> positions: \<open>L j 0\<close> is the baseline loss with every feature held out,
  \<open>L j d\<close> the loss with all features revealed. For every example \<open>j\<close> the row of
  scores has \<open>d\<close> entries, one per feature, and they are the float64 differences of
  consecutive kept losses: their sum is the sum of \<open>float64_sub (L j i) (L j (i + 1))\<close>
  over the positions \<open>i < d\<close>. The sum equals \<open>L j 0 - L j d\<close> when each of these
  differences is exact. No sampling error is involved. It holds because
  \<^verbatim>\<open>torch.randperm\<close> returns a permutation of \<open>0..<d\<close>, so every feature gets exactly
  one score, and because the loss has one entry per label.
\<close>

theorem permutation_scores_sum_rounded:
  assumes rp: "\<forall>g. distinct (fst (randperm d g)) \<and> set (fst (randperm d g)) = {..<d}"
    and lf: "\<forall>p yy. length (loss_fn p yy) = length yy" and ly: "length y = length x"
    and run: "reveal_prefix predict imp loss_fn randperm d m (x, y) g d = Inr sd"
  shows "(let L = (\<lambda>j i. rs_prev_loss
                     (projr (reveal_prefix predict imp loss_fn randperm d m (x, y) g i)) ! j)
     in (\<forall>i \<le> d. \<exists>s. reveal_prefix predict imp loss_fn randperm d m (x, y) g i = Inr s) \<and>
        rs_S (projr (reveal_prefix predict imp loss_fn randperm d m (x, y) g 0)) =
          repeat_rows m (zeros (length x) d) \<and>
        (\<forall>r < length x * m. rs_S sd ! r = replicate d 1) \<and>
        (\<forall>j < length x.
           length (rs_scores sd ! j) = d \<and>
           sum_list (rs_scores sd ! j) = (\<Sum>i<d. float64_sub (L j i) (L j (Suc i))) \<and>
           ((\<forall>i < d. float64_sub (L j i) (L j (Suc i)) = L j i - L j (Suc i)) \<longrightarrow>
              sum_list (rs_scores sd ! j) = L j 0 - L j d)))"
proof -
  let ?rp = "reveal_prefix predict imp loss_fn randperm d m (x, y) g"
  let ?n = "length x"
  obtain perms g1 where sp: "sample_permutations randperm d ?n g = (perms, g1)"
    by (cases "sample_permutations randperm d ?n g")
  have pv: "length perms = ?n" "\<forall>p \<in> set perms. distinct p \<and> length p = d \<and> set p = {..<d}"
    using sample_permutations_valid[OF rp sp] by simp_all
  define st where "st k = (case ?rp k of Inr s \<Rightarrow> s | Inl e \<Rightarrow> sd)" for k
  have ok: "\<And>k. k \<le> d \<Longrightarrow> ?rp k = Inr (st k)"
  proof -
    fix k assume "k \<le> d"
    from reveal_prefix_prefix_ok[OF run this] obtain s' where "?rp k = Inr s'" by blast
    then show "?rp k = Inr (st k)" by (simp add: st_def)
  qed
  have std: "st d = sd" using run by (simp add: st_def)
  note inv = reveal_prefix_invariant[OF rp lf ly sp run le_refl]
  have inv1: "\<And>j. j < ?n \<Longrightarrow> length (rs_scores sd ! j) = d" using inv by simp
  have inv2: "\<And>r c. r < ?n * m \<Longrightarrow> c < d \<Longrightarrow>
      rs_S sd ! r ! c = (if c \<in> set (take d (repeat_rows m perms ! r)) then 1 else 0)"
    using inv by simp
  have inv3: "\<And>r. r < ?n * m \<Longrightarrow> length (rs_S sd ! r) = d" using inv by simp
  have inv4: "\<And>i si si' j. i < d \<Longrightarrow> ?rp i = Inr si \<Longrightarrow> ?rp (Suc i) = Inr si' \<Longrightarrow> j < ?n \<Longrightarrow>
      rs_scores sd ! j ! (perms ! j ! i) = float64_sub (rs_prev_loss si ! j) (rs_prev_loss si' ! j)"
    using inv by simp
  have s0: "?rp 0 = Inr (st 0)" by (rule ok) simp
  have S0: "rs_S (st 0) = repeat_rows m (zeros ?n d)"
    using reveal_prefix_zero[OF s0] by simp
  have ones: "\<forall>r < ?n * m. rs_S sd ! r = replicate d 1"
  proof (intro allI impI)
    fix r assume r: "r < ?n * m"
    have "length (repeat_rows m perms) = ?n * m"
      using pv(1) by (metis repeat_rows_length mult.commute)
    then have "r < length (repeat_rows m perms)" using r by simp
    then have "repeat_rows m perms ! r \<in> set (repeat_rows m perms)" by (rule nth_mem)
    then have "repeat_rows m perms ! r \<in> set perms"
      using repeat_rows_set[of m perms] by (rule set_mp[rotated])
    then have p: "length (repeat_rows m perms ! r) = d" "set (repeat_rows m perms ! r) = {..<d}"
      using pv(2) by simp_all
    have len: "length (rs_S sd ! r) = d" by (rule inv3[OF r])
    have "\<And>c. c < d \<Longrightarrow> rs_S sd ! r ! c = 1"
    proof -
      fix c assume c: "c < d"
      have "rs_S sd ! r ! c = (if c \<in> set (take d (repeat_rows m perms ! r)) then 1 else 0)"
        by (rule inv2[OF r c])
      then show "rs_S sd ! r ! c = 1" using p c by simp
    qed
    then show "rs_S sd ! r = replicate d 1" using len by (intro nth_equalityI) simp_all
  qed
  have pr: "\<And>k. k \<le> d \<Longrightarrow> projr (?rp k) = st k"
    using ok by simp
  have tel: "\<forall>j < ?n. length (rs_scores sd ! j) = d \<and>
         sum_list (rs_scores sd ! j) =
           (\<Sum>i<d. float64_sub (rs_prev_loss (st i) ! j) (rs_prev_loss (st (Suc i)) ! j)) \<and>
         ((\<forall>i < d. float64_sub (rs_prev_loss (st i) ! j) (rs_prev_loss (st (Suc i)) ! j) =
                    rs_prev_loss (st i) ! j - rs_prev_loss (st (Suc i)) ! j) \<longrightarrow>
            sum_list (rs_scores sd ! j) = rs_prev_loss (st 0) ! j - rs_prev_loss (st d) ! j)"
  proof (intro allI impI)
    fix j assume j: "j < ?n"
    define L where "L i = rs_prev_loss (st i) ! j" for i
    have len: "length (rs_scores sd ! j) = d" by (rule inv1[OF j])
    have pj: "distinct (perms ! j)" "set (perms ! j) = {..<d}" "length (perms ! j) = d"
      using pv j by simp_all
    have step: "\<And>i. i < d \<Longrightarrow> rs_scores sd ! j ! (perms ! j ! i) = float64_sub (L i) (L (Suc i))"
    proof -
      fix i assume i: "i < d"
      have a: "?rp i = Inr (st i)" using i by (intro ok) simp
      have b: "?rp (Suc i) = Inr (st (Suc i))" using i by (intro ok) simp
      show "rs_scores sd ! j ! (perms ! j ! i) = float64_sub (L i) (L (Suc i))"
        unfolding L_def by (rule inv4[OF i a b j])
    qed
    have "sum_list (rs_scores sd ! j) = (\<Sum>i<d. rs_scores sd ! j ! (perms ! j ! i))"
      by (rule sum_list_permuted[OF len pj(1,2,3)])
    also have "\<dots> = (\<Sum>i<d. float64_sub (L i) (L (Suc i)))"
      by (rule sum.cong) (simp_all add: step)
    finally have sm: "sum_list (rs_scores sd ! j) = (\<Sum>i<d. float64_sub (L i) (L (Suc i)))" .
    have ex: "(\<forall>i < d. float64_sub (L i) (L (Suc i)) = L i - L (Suc i)) \<longrightarrow>
            sum_list (rs_scores sd ! j) = L 0 - L d"
    proof
      assume e: "\<forall>i < d. float64_sub (L i) (L (Suc i)) = L i - L (Suc i)"
      have "(\<Sum>i<d. float64_sub (L i) (L (Suc i))) = (\<Sum>i<d. L i - L (Suc i))"
        by (rule sum.cong) (simp_all add: e)
      also have "\<dots> = L 0 - L d" by (rule sum_lessThan_telescope')
      finally show "sum_list (rs_scores sd ! j) = L 0 - L d"
        using sm by simp
    qed
    show "length (rs_scores sd ! j) = d \<and>
         sum_list (rs_scores sd ! j) =
           (\<Sum>i<d. float64_sub (rs_prev_loss (st i) ! j) (rs_prev_loss (st (Suc i)) ! j)) \<and>
         ((\<forall>i < d. float64_sub (rs_prev_loss (st i) ! j) (rs_prev_loss (st (Suc i)) ! j) =
                    rs_prev_loss (st i) ! j - rs_prev_loss (st (Suc i)) ! j) \<longrightarrow>
            sum_list (rs_scores sd ! j) = rs_prev_loss (st 0) ! j - rs_prev_loss (st d) ! j)"
      using len sm ex unfolding L_def by (intro conjI)
  qed
  have sumeq: "\<And>j. (\<Sum>i<d. float64_sub (rs_prev_loss (projr (?rp i)) ! j)
                                    (rs_prev_loss (projr (?rp (Suc i))) ! j)) =
      (\<Sum>i<d. float64_sub (rs_prev_loss (st i) ! j) (rs_prev_loss (st (Suc i)) ! j))"
    by (rule sum.cong) (simp_all add: pr)
  have alleq: "\<And>j. (\<forall>i < d. float64_sub (rs_prev_loss (projr (?rp i)) ! j)
                                    (rs_prev_loss (projr (?rp (Suc i))) ! j) =
                    rs_prev_loss (projr (?rp i)) ! j - rs_prev_loss (projr (?rp (Suc i))) ! j) =
      (\<forall>i < d. float64_sub (rs_prev_loss (st i) ! j) (rs_prev_loss (st (Suc i)) ! j) =
                    rs_prev_loss (st i) ! j - rs_prev_loss (st (Suc i)) ! j)"
    by (simp add: pr)
  have pr0: "projr (?rp 0) = st 0" by (rule pr) simp
  have prd: "projr (?rp d) = st d" by (rule pr) simp
  have all_ok: "\<forall>i \<le> d. \<exists>s. ?rp i = Inr s" using ok by blast
  have S0': "rs_S (projr (?rp 0)) = repeat_rows m (zeros ?n d)"
    using S0 pr0 by simp
  have tel': "\<forall>j < ?n. length (rs_scores sd ! j) = d \<and>
         sum_list (rs_scores sd ! j) =
           (\<Sum>i<d. float64_sub (rs_prev_loss (projr (?rp i)) ! j)
                                    (rs_prev_loss (projr (?rp (Suc i))) ! j)) \<and>
         ((\<forall>i < d. float64_sub (rs_prev_loss (projr (?rp i)) ! j)
                                    (rs_prev_loss (projr (?rp (Suc i))) ! j) =
                    rs_prev_loss (projr (?rp i)) ! j - rs_prev_loss (projr (?rp (Suc i))) ! j) \<longrightarrow>
            sum_list (rs_scores sd ! j) =
              rs_prev_loss (projr (?rp 0)) ! j - rs_prev_loss (projr (?rp d)) ! j)"
    unfolding sumeq alleq pr0 prd by (rule tel)
  show ?thesis unfolding Let_def using all_ok S0' ones tel' by (intro conjI)
qed


theorem permutation_scores_sum_rounded_witness:
  "reveal_prefix ex_predict ex_imp ex_loss ex_randperm 2 1 ([[1, 2]], [3]) 0 2 =
      Inr \<lparr>rs_S = [[1, 1]], rs_prev_loss = [0], rs_scores = [[5, 4]], rs_gen = 4\<rparr> \<and>
   rs_S (projr (reveal_prefix ex_predict ex_imp ex_loss ex_randperm 2 1 ([[1, 2]], [3]) 0 0)) =
      [[0, 0]] \<and>
   sum_list [5, 4] = float64_sub 9 4 + float64_sub 4 0 \<and>
   sum_list [5, 4] = (9 :: real) - 0"
proof -
  note t = permutation_scores_sum_rounded[OF ex_randperm_valid ex_loss_length ex_ly ex_run,
      unfolded Let_def]
  have two: "{..<2::nat} = {0, Suc 0}" by auto
  have rp2: "reveal_prefix ex_predict ex_imp ex_loss ex_randperm 2 (Suc 0) ([[1, 2]], [3]) 0 (Suc (Suc 0)) =
      Inr \<lparr>rs_S = [[1, 1]], rs_prev_loss = [0], rs_scores = [[5, 4]], rs_gen = 4\<rparr>"
    using ex_run by (simp add: numeral_2_eq_2)
  have rp0: "reveal_prefix ex_predict ex_imp ex_loss ex_randperm 2 (Suc 0) ([[1, 2]], [3]) 0 0 =
      Inr \<lparr>rs_S = [[0, 0]], rs_prev_loss = [9], rs_scores = [[0, 0]], rs_gen = 2\<rparr>"
    using ex_start by simp
  have rp1: "reveal_prefix ex_predict ex_imp ex_loss ex_randperm 2 (Suc 0) ([[1, 2]], [3]) 0 (Suc 0) =
      Inr \<lparr>rs_S = [[1, 0]], rs_prev_loss = [4], rs_scores = [[5, 0]], rs_gen = 3\<rparr>"
    using ex_mid by simp
  from t have s0: "rs_S (projr (reveal_prefix ex_predict ex_imp ex_loss ex_randperm 2 1
      ([[1, 2]], [3]) 0 0)) = repeat_rows 1 (zeros (length [[1, 2 :: real]]) 2)"
    by (rule conjunct1[OF conjunct2])
  from t have "\<forall>j < length [[1, 2 :: real]]. length ([[5, 4 :: real]] ! j) = 2 \<and>
      sum_list ([[5, 4 :: real]] ! j) = (\<Sum>i<2. float64_sub
         (rs_prev_loss (projr (reveal_prefix ex_predict ex_imp ex_loss ex_randperm 2 1
            ([[1, 2]], [3]) 0 i)) ! j)
         (rs_prev_loss (projr (reveal_prefix ex_predict ex_imp ex_loss ex_randperm 2 1
            ([[1, 2]], [3]) 0 (Suc i))) ! j))"
    by simp
  then have "sum_list [5, 4 :: real] = float64_sub 9 4 + float64_sub 4 0"
    by (simp add: two rp0 rp1 rp2)
  then show ?thesis using ex_run s0 by (simp add: repeat_rows_def zeros_def eval_nat_numeral)
qed


text \<open>
  C1. In the permutation estimator, for a batch \<open>(x, y)\<close> whose reveal loop completes in
  state \<open>sd\<close>, and every reveal position \<open>i < d\<close>, with \<open>s\<close> and \<open>s'\<close> the states before
  and after position \<open>i\<close>: the mask \<open>S\<close> of \<open>s'\<close> is the mask of \<open>s\<close> with a 1 written at
  the \<open>i\<close>-th permuted feature index of each (tiled) example; the loss kept in \<open>s'\<close> is
  the one evaluated on the input imputed under that new mask; the score of example \<open>j\<close>
  at its \<open>i\<close>-th permuted feature, read in the final score matrix, is the loss kept
  before the step minus the loss kept after it (the float64 difference); and the loss
  kept after the step is the previous loss of position \<open>i + 1\<close>. The tracker is updated
  once per batch, after the loop, with the final \<open>n \<times> d\<close> score matrix.
\<close>

theorem permutation_reveal_then_update:
  assumes rp: "\<forall>g. distinct (fst (randperm d g)) \<and> set (fst (randperm d g)) = {..<d}"
    and lf: "\<forall>p yy. length (loss_fn p yy) = length yy" and ly: "length y = length x"
    and sp: "sample_permutations randperm d (length x) g = (perms, g1)"
    and run: "reveal_prefix predict imp loss_fn randperm d m (x, y) g d = Inr sd"
  shows "(\<forall>i < d. \<exists>s s'.
        reveal_prefix predict imp loss_fn randperm d m (x, y) g i = Inr s \<and>
        reveal_prefix predict imp loss_fn randperm d m (x, y) g (Suc i) = Inr s' \<and>
        (\<forall>r < length x * m. rs_S s' ! r = (rs_S s ! r)[repeat_rows m perms ! r ! i := 1]) \<and>
        imputed_loss predict imp loss_fn m (repeat_rows m x) (rs_S s') y (rs_gen s) =
          Inr (rs_prev_loss s', rs_gen s') \<and>
        (\<forall>j < length x. rs_scores sd ! j ! (perms ! j ! i) =
            float64_sub (rs_prev_loss s ! j) (rs_prev_loss s' ! j))) \<and>
     length (rs_scores sd) = length x \<and> (\<forall>j < length x. length (rs_scores sd ! j) = d) \<and>
     permutation_batch predict imp loss_fn randperm T d m (tracker, g) (x, y) =
       Inr (tracker_update T tracker (rs_scores sd), rs_gen sd)"
proof -
  let ?rp = "reveal_prefix predict imp loss_fn randperm d m (x, y) g"
  let ?n = "length x"
  let ?P = "repeat_rows m perms"
  note inv = reveal_prefix_invariant[OF rp lf ly sp run le_refl]
  have inv4: "\<And>i si si' j. i < d \<Longrightarrow> ?rp i = Inr si \<Longrightarrow> ?rp (Suc i) = Inr si' \<Longrightarrow> j < ?n \<Longrightarrow>
      rs_scores sd ! j ! (perms ! j ! i) = float64_sub (rs_prev_loss si ! j) (rs_prev_loss si' ! j)"
    using inv by simp
  have pv: "length perms = ?n" using sample_permutations_valid[OF rp sp] by simp
  have P: "length ?P = ?n * m" using pv by (metis repeat_rows_length mult.commute)
  have steps: "\<forall>i < d. \<exists>s s'. ?rp i = Inr s \<and> ?rp (Suc i) = Inr s' \<and>
        (\<forall>r < ?n * m. rs_S s' ! r = (rs_S s ! r)[?P ! r ! i := 1]) \<and>
        imputed_loss predict imp loss_fn m (repeat_rows m x) (rs_S s') y (rs_gen s) =
          Inr (rs_prev_loss s', rs_gen s') \<and>
        (\<forall>j < ?n. rs_scores sd ! j ! (perms ! j ! i) = float64_sub (rs_prev_loss s ! j) (rs_prev_loss s' ! j))"
  proof (intro allI impI)
    fix i assume i: "i < d"
    from reveal_prefix_prefix_ok[OF run, of i] i obtain s where a: "?rp i = Inr s" by auto
    from reveal_prefix_prefix_ok[OF run, of "Suc i"] i obtain s' where b: "?rp (Suc i) = Inr s'"
      by auto
    have step: "reveal_step predict imp loss_fn m ?n (repeat_rows m x) y ?P s i = Inr s'"
      by (rule reveal_prefix_Suc[OF sp a b])
    have lenS: "length (rs_S s) = ?n * m"
      using reveal_prefix_invariant[OF rp lf ly sp a] i by simp
    have mask: "\<forall>r < ?n * m. rs_S s' ! r = (rs_S s ! r)[?P ! r ! i := 1]"
      using reveal_step_mask[OF step lenS _ P] by simp
    have loss: "imputed_loss predict imp loss_fn m (repeat_rows m x) (rs_S s') y (rs_gen s) =
          Inr (rs_prev_loss s', rs_gen s')"
      by (rule reveal_step_loss[OF step])
    have sc: "\<forall>j < ?n. rs_scores sd ! j ! (perms ! j ! i) = float64_sub (rs_prev_loss s ! j) (rs_prev_loss s' ! j)"
      using inv4[OF i a b] by simp
    show "\<exists>s s'. ?rp i = Inr s \<and> ?rp (Suc i) = Inr s' \<and>
        (\<forall>r < ?n * m. rs_S s' ! r = (rs_S s ! r)[?P ! r ! i := 1]) \<and>
        imputed_loss predict imp loss_fn m (repeat_rows m x) (rs_S s') y (rs_gen s) =
          Inr (rs_prev_loss s', rs_gen s') \<and>
        (\<forall>j < ?n. rs_scores sd ! j ! (perms ! j ! i) = float64_sub (rs_prev_loss s ! j) (rs_prev_loss s' ! j))"
      using a b mask loss sc by (intro exI conjI)
  qed
  have dims: "length (rs_scores sd) = ?n" "\<forall>j < ?n. length (rs_scores sd ! j) = d"
    using inv by simp_all
  have upd: "permutation_batch predict imp loss_fn randperm T d m (tracker, g) (x, y) =
       Inr (tracker_update T tracker (rs_scores sd), rs_gen sd)"
    using run by (simp add: permutation_batch_def)
  show ?thesis using steps dims upd by (intro conjI)
qed

theorem permutation_reveal_then_update_witness:
  "permutation_batch ex_predict ex_imp ex_loss ex_randperm ex_tracker 2 1 ([], 0) ([[1, 2]], [3])
     = Inr ([[[5, 4]]], 4) \<and>
   (\<exists>s s'. reveal_prefix ex_predict ex_imp ex_loss ex_randperm 2 1 ([[1, 2]], [3]) 0 1 = Inr s \<and>
      reveal_prefix ex_predict ex_imp ex_loss ex_randperm 2 1 ([[1, 2]], [3]) 0 2 = Inr s' \<and>
      rs_S s' ! 0 = (rs_S s ! 0)[1 := 1] \<and>
      imputed_loss ex_predict ex_imp ex_loss 1 [[1, 2]] (rs_S s') [3] (rs_gen s) =
        Inr (rs_prev_loss s', rs_gen s') \<and>
      float64_sub (rs_prev_loss s ! 0) (rs_prev_loss s' ! 0) = 4)"
proof -
  note t = permutation_reveal_then_update[OF ex_randperm_valid ex_loss_length ex_ly ex_sp ex_run,
      of ex_tracker "[]"]
  from t have upd: "permutation_batch ex_predict ex_imp ex_loss ex_randperm ex_tracker 2 1 ([], 0)
      ([[1, 2]], [3]) = Inr ([[[5, 4]]], 4)"
    by (simp add: ex_tracker_def)
  from t[THEN conjunct1, rule_format, of 1]
  show ?thesis using upd by (simp add: repeat_rows_def numeral_2_eq_2)
qed

text \<open>
  C5. The outer loop of the permutation estimator, for a tracker whose \<^verbatim>\<open>var\<close> is never
  empty. With convergence detection disabled the loop is the plain loop over all the
  batches: it never leaves early. With detection enabled, the check after a batch is
  whether \<open>sqrt (max var) / total\<close> is strictly below the threshold (for a total other
  than 0), and the loop returns the state reached after the first batch at which the
  check holds, without processing a further batch; when the check holds after no batch
  the loop again runs over all the batches.
\<close>

theorem permutation_convergence_break:
  fixes T :: "('tr, matrix, vec, 's, 'y) importance_tracker_scheme"
    and st0 :: "'tr \<times> 'g"
    and predict imp loss_fn randperm d m tot thr
  assumes var: "\<forall>tr. tracker_var T tr \<noteq> []"
  defines "step \<equiv> permutation_batch predict imp loss_fn randperm T d m"
    and "conv \<equiv> \<lambda>s. ratio_below (np_sqrt (Max (set (tracker_var T (fst s))))) tot thr"
  shows "sampling_loop step (permutation_stop T False thr tot) st0 loader = for_each step st0 loader \<and>
    (\<forall>k sk. k < length loader \<and> for_each step st0 (take (Suc k) loader) = Inr sk \<and> conv sk \<and>
        (\<forall>j < k. \<forall>s. for_each step st0 (take (Suc j) loader) = Inr s \<longrightarrow> \<not> conv s) \<longrightarrow>
        sampling_loop step (permutation_stop T True thr tot) st0 loader = Inr sk) \<and>
    ((\<forall>j < length loader. \<forall>s. for_each step st0 (take (Suc j) loader) = Inr s \<longrightarrow> \<not> conv s) \<longrightarrow>
        sampling_loop step (permutation_stop T True thr tot) st0 loader = for_each step st0 loader) \<and>
    (\<forall>t v. t \<noteq> 0 \<and> 0 \<le> v \<longrightarrow> ratio_below (np_sqrt v) (Some t) thr = (sqrt v / t < thr))"
proof -
  have stop: "\<And>detect s. permutation_stop T detect thr tot s = Inr (detect \<and> conv s)"
    unfolding conv_def using var by (intro permutation_stop_eq) simp
  have a: "sampling_loop step (permutation_stop T False thr tot) st0 loader = for_each step st0 loader"
    by (rule sampling_loop_no_break) (simp add: stop)
  have b: "\<forall>k sk. k < length loader \<and> for_each step st0 (take (Suc k) loader) = Inr sk \<and> conv sk \<and>
        (\<forall>j < k. \<forall>s. for_each step st0 (take (Suc j) loader) = Inr s \<longrightarrow> \<not> conv s) \<longrightarrow>
        sampling_loop step (permutation_stop T True thr tot) st0 loader = Inr sk"
  proof (intro allI impI, elim conjE)
    fix k sk
    assume k: "k < length loader" and sk: "for_each step st0 (take (Suc k) loader) = Inr sk"
      and c: "conv sk"
      and first: "\<forall>j < k. \<forall>s. for_each step st0 (take (Suc j) loader) = Inr s \<longrightarrow> \<not> conv s"
    show "sampling_loop step (permutation_stop T True thr tot) st0 loader = Inr sk"
      by (rule sampling_loop_first_break[OF k sk]) (use c first in \<open>simp_all add: stop\<close>)
  qed
  have c: "(\<forall>j < length loader. \<forall>s. for_each step st0 (take (Suc j) loader) = Inr s \<longrightarrow> \<not> conv s) \<longrightarrow>
        sampling_loop step (permutation_stop T True thr tot) st0 loader = for_each step st0 loader"
  proof
    assume "\<forall>j < length loader. \<forall>s. for_each step st0 (take (Suc j) loader) = Inr s \<longrightarrow> \<not> conv s"
    then show "sampling_loop step (permutation_stop T True thr tot) st0 loader = for_each step st0 loader"
      by (intro sampling_loop_no_break) (simp add: stop)
  qed
  have d: "\<forall>t v. t \<noteq> 0 \<and> 0 \<le> v \<longrightarrow> ratio_below (np_sqrt v) (Some t) thr = (sqrt v / t < thr)"
    by (simp add: ratio_below_nonzero)
  show ?thesis using a b c d by (intro conjI)
qed



theorem permutation_convergence_break_witness:
  "sampling_loop (permutation_batch ex_predict ex_imp ex_loss ex_randperm ex_tracker 2 1)
      (permutation_stop ex_tracker True (1 / 2) (Some 1)) ([], 0) ex_loader
     = Inr ([[[5, 4]], [[0, 0]]], 8) \<and>
   sampling_loop (permutation_batch ex_predict ex_imp ex_loss ex_randperm ex_tracker 2 1)
      (permutation_stop ex_tracker False (1 / 2) (Some 1)) ([], 0) ex_loader
     = Inr ([[[5, 4]], [[0, 0]], [[- 1, - 3]]], 12)"
proof -
  have var: "\<forall>tr. tracker_var ex_tracker tr \<noteq> []" by (simp add: ex_tracker_def)
  note t = permutation_convergence_break[OF var, of ex_predict ex_imp ex_loss ex_randperm 2 1
      "1 / 2" "Some 1" "([], 0)" ex_loader]
  have c2: "ratio_below (np_sqrt (Max (set (tracker_var ex_tracker (fst ([[[5, 4]], [[0, 0]]], 8 :: nat))))))
      (Some 1) (1 / 2)"
    by (simp add: ex_tracker_def ratio_below_def np_sqrt_def)
  have c1: "\<forall>j < Suc 0. \<forall>s.
      for_each (permutation_batch ex_predict ex_imp ex_loss ex_randperm ex_tracker 2 1) ([], 0)
        (take (Suc j) ex_loader) = Inr s \<longrightarrow>
      \<not> ratio_below (np_sqrt (Max (set (tracker_var ex_tracker (fst s))))) (Some 1) (1 / 2)"
    using ex_prefix1 by (auto simp: ex_tracker_def ratio_below_def np_sqrt_def)
  have len: "Suc 0 < length ex_loader" by (simp add: ex_loader_def)
  from t[THEN conjunct2, THEN conjunct1, rule_format, of "Suc 0" "([[[5, 4]], [[0, 0]]], 8)"]
    len ex_prefix2 c2 c1
  have brk: "sampling_loop (permutation_batch ex_predict ex_imp ex_loss ex_randperm ex_tracker 2 1)
      (permutation_stop ex_tracker True (1 / 2) (Some 1)) ([], 0) ex_loader
     = Inr ([[[5, 4]], [[0, 0]]], 8)" by blast
  from t[THEN conjunct1] ex_all
  show ?thesis using brk by simp
qed

text \<open>
  C9. The convergence check has no guard on the baseline total. The claim that a total at
  or near zero makes the check fall back to "not converged" fails for a small negative
  total: on the instance below \<^verbatim>\<open>estimate_total\<close> is \<open>- 1 / 10000\<close>, and with detection
  enabled both estimators leave their minibatch loop after the first of three batches,
  when \<open>conf\<close> is still 1.
\<close>

theorem convergence_guard_counterexample:
  "estimate_total ex_predict ex_loss ex_near_zero = Inr (Some (- 1 / 10000)) \<and>
   length ex_loader = 3 \<and>
   permutation_sampling ex_predict ex_imp ex_loss ex_randperm ex_tracker 2 ex_near_zero ex_loader 1
     True (1 / 100) 0 = ([], Inr [[[5, 4]]]) \<and>
   np_sqrt (Max (set (tracker_var ex_tracker [[[5, 4]]]))) = Some 1 \<and>
   iterated_sampling ex_predict ex_imp ex_loss ex_sampler ex_tracker1 2 ex_near_zero
     (\<lambda>ind. ex_loader) 1 True (1 / 100) 0 = ([], Inr [[[5]], [[4]]]) \<and>
   np_sqrt (tracker_var ex_tracker1 [[5]]) = Some 1"
  using ex_total ex_perm_run ex_iter_run
  by (simp add: ex_loader_def ex_tracker_def ex_tracker1_def np_sqrt_def)

text \<open>
  C9, as the code has it. The check is the unguarded comparison \<open>conf / total < threshold\<close>.
  When the total is exactly 0 the comparison is false (the numpy quotient is \<^verbatim>\<open>inf\<close> or
  \<^verbatim>\<open>nan\<close>; nothing is raised), so in both estimators the loop is the plain loop over all
  the batches of the finite loader. When the total is not 0 the quotient is compared as
  it is; in particular for a negative total, however small, a non-negative \<open>conf\<close> and a
  positive threshold the check holds.
\<close>

theorem convergence_check_unguarded:
  fixes T :: "('tr, matrix, vec, 's, 'y) importance_tracker_scheme"
    and T1 :: "('tr1, vec, real, 's1, 'y1) importance_tracker_scheme"
    and st :: "'tr \<times> 'g" and st1 :: "'tr1 \<times> 'g"
  assumes var: "\<forall>tr. tracker_var T tr \<noteq> []"
  shows "sampling_loop (permutation_batch predict imp loss_fn randperm T d m)
           (permutation_stop T detect thr (Some 0)) st bs
         = for_each (permutation_batch predict imp loss_fn randperm T d m) st bs \<and>
     sampling_loop (iterated_batch predict imp loss_fn sampler T1 d m ind)
           (iterated_stop T1 detect thr (Some 0)) st1 bs1
         = for_each (iterated_batch predict imp loss_fn sampler T1 d m ind) st1 bs1 \<and>
     (\<forall>c t. t \<noteq> 0 \<longrightarrow> ratio_below (Some c) (Some t) thr = (c / t < thr)) \<and>
     (\<forall>c t. t < 0 \<and> 0 \<le> c \<and> 0 < thr \<longrightarrow> ratio_below (Some c) (Some t) thr)"
proof -
  have a: "sampling_loop (permutation_batch predict imp loss_fn randperm T d m)
           (permutation_stop T detect thr (Some 0)) st bs
         = for_each (permutation_batch predict imp loss_fn randperm T d m) st bs"
    by (rule sampling_loop_no_break)
       (use var in \<open>simp add: permutation_stop_eq ratio_below_zero_total\<close>)
  have b: "sampling_loop (iterated_batch predict imp loss_fn sampler T1 d m ind)
           (iterated_stop T1 detect thr (Some 0)) st1 bs1
         = for_each (iterated_batch predict imp loss_fn sampler T1 d m ind) st1 bs1"
    by (rule sampling_loop_no_break)
       (simp add: iterated_stop_def ratio_below_zero_total)
  have c: "\<forall>c t. t \<noteq> 0 \<longrightarrow> ratio_below (Some c) (Some t) thr = (c / t < thr)"
    by (simp add: ratio_below_def)
  have d: "\<forall>c t. t < 0 \<and> 0 \<le> c \<and> 0 < thr \<longrightarrow> ratio_below (Some c) (Some t) thr"
  proof (intro allI impI, elim conjE)
    fix c t :: real assume "t < 0" "0 \<le> c" "0 < thr"
    then have "c / t \<le> 0" by (simp add: divide_nonneg_neg)
    then show "ratio_below (Some c) (Some t) thr"
      using \<open>t < 0\<close> \<open>0 < thr\<close> by (simp add: ratio_below_def)
  qed
  show ?thesis using a b c d by (intro conjI)
qed

theorem convergence_check_unguarded_witness:
  "sampling_loop (permutation_batch ex_predict ex_imp ex_loss ex_randperm ex_tracker 2 1)
      (permutation_stop ex_tracker True (1 / 100) (Some 0)) ([], 0) ex_loader
     = Inr ([[[5, 4]], [[0, 0]], [[- 1, - 3]]], 12) \<and>
   ratio_below (Some 1) (Some (- 1 / 10000)) (1 / 100)"
proof -
  have var: "\<forall>tr. tracker_var ex_tracker tr \<noteq> []" by (simp add: ex_tracker_def)
  note t = convergence_check_unguarded[OF var, of ex_predict ex_imp ex_loss ex_randperm 2 1 True
      "1 / 100" "([], 0)" ex_loader]
  from t[THEN conjunct1] ex_all
  have a: "sampling_loop (permutation_batch ex_predict ex_imp ex_loss ex_randperm ex_tracker 2 1)
      (permutation_stop ex_tracker True (1 / 100) (Some 0)) ([], 0) ex_loader
     = Inr ([[[5, 4]], [[0, 0]], [[- 1, - 3]]], 12)" by simp
  from t[THEN conjunct2, THEN conjunct2, THEN conjunct2, rule_format, of "- 1 / 10000" 1]
  have b: "ratio_below (Some 1) (Some (- 1 / 10000)) (1 / 100)" by simp
  show ?thesis using a b by (intro conjI)
qed





text \<open>
  C6. \<^verbatim>\<open>iterated_sampling\<close> on a dataset with at least one feature, a valid imputation
  module, a positive replicate count and a model and imputation that keep the number of
  rows: it returns a matrix \<open>rows\<close> with exactly \<open>input_size\<close> rows. Row \<open>ind\<close> is the
  \<^verbatim>\<open>scores\<close> of the tracker that the minibatch loop of feature \<open>ind\<close> ends with, a loop
  started on a new tracker (and on the generator state \<open>gs ! ind\<close> the previous feature
  left). When the convergence check breaks the loop of feature \<open>ind\<close> after some batch,
  row \<open>ind\<close> is read from the state reached there and the next feature starts from it:
  the break ends the loop of that feature only.
\<close>

theorem iterated_sampling_rows:
  fixes T :: "('tr, vec, real, 's, 'y) importance_tracker_scheme" and g :: 'g
  assumes mod: "is_module imp"
    and m: "0 < fst (clamp_m_samples imp m_samples)"
    and shape: "\<forall>g X S. length (predict (fst (impute imp g X S))) = length X"
    and d: "0 < input_size"
  shows "\<exists>tot rows gs.
      estimate_total predict loss_fn batches = Inr tot \<and>
      snd (iterated_sampling predict imp loss_fn sampler T input_size batches loader m_samples
             detect thr g) = Inr rows \<and>
      length rows = input_size \<and> length gs = Suc input_size \<and> gs ! 0 = g \<and>
      (\<forall>ind < input_size. \<exists>tr.
          sampling_loop
            (iterated_batch predict imp loss_fn sampler T input_size
               (fst (clamp_m_samples imp m_samples)) ind)
            (iterated_stop T detect thr tot) (tracker_new T, gs ! ind) (loader ind)
            = Inr (tr, gs ! Suc ind) \<and>
          rows ! ind = tracker_scores T tr) \<and>
      (\<forall>ind < input_size. \<forall>k sk.
          k < length (loader ind) \<and>
          for_each (iterated_batch predict imp loss_fn sampler T input_size
               (fst (clamp_m_samples imp m_samples)) ind)
            (tracker_new T, gs ! ind) (take (Suc k) (loader ind)) = Inr sk \<and>
          iterated_stop T detect thr tot sk = Inr True \<and>
          (\<forall>j < k. \<forall>s.
              for_each (iterated_batch predict imp loss_fn sampler T input_size
                   (fst (clamp_m_samples imp m_samples)) ind)
                (tracker_new T, gs ! ind) (take (Suc j) (loader ind)) = Inr s \<longrightarrow>
              iterated_stop T detect thr tot s = Inr False) \<longrightarrow>
          rows ! ind = tracker_scores T (fst sk) \<and> gs ! Suc ind = snd sk)"
proof -
  let ?m = "fst (clamp_m_samples imp m_samples)"
  obtain tot where tot: "estimate_total predict loss_fn batches = Inr tot"
    using estimate_total_ok by blast
  let ?step = "\<lambda>ind. iterated_batch predict imp loss_fn sampler T input_size ?m ind"
  let ?run = "feature_loop predict imp loss_fn sampler T input_size ?m detect thr tot loader"
  have step_ok: "\<And>ind. \<forall>st b. \<exists>st'. ?step ind st b = Inr st'"
    using iterated_batch_ok[OF m shape] by blast
  have stop_ok: "\<forall>st :: 'tr \<times> 'g. \<exists>v. iterated_stop T detect thr tot st = Inr v"
    using iterated_stop_ok by blast
  have run_ok: "\<forall>ind g. \<exists>r. ?run ind g = Inr r"
    unfolding feature_loop_def
    using sampling_loop_ok[OF step_ok stop_ok] by blast
  from iterated_features_rows[OF run_ok, of "tracker_scores T" "[0..<input_size]" g]
  obtain rows gs where
    f: "iterated_features ?run (tracker_scores T) [0..<input_size] g = Inr rows"
    and lr: "length rows = input_size" and lg: "length gs = Suc input_size" and g0: "gs ! 0 = g"
    and each: "\<forall>k < input_size. \<exists>tr. ?run ([0..<input_size] ! k) (gs ! k) = Inr (tr, gs ! Suc k) \<and>
        rows ! k = tracker_scores T tr"
    by auto
  have ne: "rows \<noteq> []" using lr d by auto
  obtain mm out where cl: "clamp_m_samples imp m_samples = (mm, out)"
    by (cases "clamp_m_samples imp m_samples")
  have res: "snd (iterated_sampling predict imp loss_fn sampler T input_size batches loader m_samples
             detect thr g) = Inr rows"
    using mod tot f ne cl by (simp add: iterated_sampling_def np_stack_def)
  have loops: "\<forall>ind < input_size. \<exists>tr.
          sampling_loop (?step ind) (iterated_stop T detect thr tot) (tracker_new T, gs ! ind)
            (loader ind) = Inr (tr, gs ! Suc ind) \<and>
          rows ! ind = tracker_scores T tr"
    using each by (simp add: feature_loop_def)
  have brk: "\<forall>ind < input_size. \<forall>k sk.
          k < length (loader ind) \<and>
          for_each (?step ind) (tracker_new T, gs ! ind) (take (Suc k) (loader ind)) = Inr sk \<and>
          iterated_stop T detect thr tot sk = Inr True \<and>
          (\<forall>j < k. \<forall>s.
              for_each (?step ind) (tracker_new T, gs ! ind) (take (Suc j) (loader ind)) = Inr s \<longrightarrow>
              iterated_stop T detect thr tot s = Inr False) \<longrightarrow>
          rows ! ind = tracker_scores T (fst sk) \<and> gs ! Suc ind = snd sk"
  proof (intro allI impI, elim conjE)
    fix ind k sk
    assume ind: "ind < input_size" and k: "k < length (loader ind)"
      and sk: "for_each (?step ind) (tracker_new T, gs ! ind) (take (Suc k) (loader ind)) = Inr sk"
      and st: "iterated_stop T detect thr tot sk = Inr True"
      and first: "\<forall>j < k. \<forall>s.
              for_each (?step ind) (tracker_new T, gs ! ind) (take (Suc j) (loader ind)) = Inr s \<longrightarrow>
              iterated_stop T detect thr tot s = Inr False"
    have "sampling_loop (?step ind) (iterated_stop T detect thr tot) (tracker_new T, gs ! ind)
            (loader ind) = Inr sk"
      by (rule sampling_loop_first_break[OF k sk st first])
    moreover from loops ind obtain tr where
      "sampling_loop (?step ind) (iterated_stop T detect thr tot) (tracker_new T, gs ! ind)
            (loader ind) = Inr (tr, gs ! Suc ind)" "rows ! ind = tracker_scores T tr"
      by blast
    ultimately show "rows ! ind = tracker_scores T (fst sk) \<and> gs ! Suc ind = snd sk"
      by auto
  qed
  show ?thesis using tot res lr lg g0 loops brk by (intro exI conjI)
qed

theorem iterated_sampling_rows_witness:
  "\<exists>rows. snd (iterated_sampling ex_predict ex_imp ex_loss ex_sampler ex_tracker1 2 ex_near_zero
        (\<lambda>ind. ex_loader) 1 True (1 / 100) 0) = Inr rows \<and>
      length rows = 2 \<and> rows = [[[5]], [[4]]]"
proof -
  have a: "is_module ex_imp" by (simp add: ex_imp_def)
  have b: "0 < fst (clamp_m_samples ex_imp 1)" by (simp add: clamp_m_samples_def)
  have c: "0 < (2 :: nat)" by simp
  from iterated_sampling_rows[OF a b ex_shape c, of ex_loss ex_near_zero ex_sampler ex_tracker1
      "\<lambda>ind. ex_loader" True "1 / 100" 0]
  show ?thesis using ex_iter_run by auto
qed

text \<open>
  C7. For both estimators, with an imputation module that is a reference imputation and
  a caller's \<open>m_samples\<close> other than 1: the replicate count becomes 1 and the notice is
  printed; the call prints that notice and otherwise returns exactly what the call with
  \<open>m_samples = 1\<close> returns (which prints nothing), so every replication uses 1; and the
  call does not fail: with a model and imputation that keep the number of rows (and, for
  the permutation estimator, a tracker whose \<^verbatim>\<open>var\<close> is not empty; for the iterated one,
  at least one feature) it returns its scores.
\<close>

theorem reference_imputation_clamps_m_samples:
  fixes T :: "('tr, matrix, vec, 's, 'y) importance_tracker_scheme"
    and T1 :: "('tr1, vec, real, 's1, 'y1) importance_tracker_scheme" and g :: 'g
  assumes mod: "is_module imp" and ref: "is_reference imp" and neq: "m_samples \<noteq> 1"
    and shape: "\<forall>g X S. length (predict (fst (impute imp g X S))) = length X"
    and var: "\<forall>tr. tracker_var T tr \<noteq> []" and d: "0 < d"
  shows "clamp_m_samples imp m_samples = (1, [''Using ReferenceImputation, setting m_samples = 1'']) \<and>
    permutation_sampling predict imp loss_fn randperm T d batches loader m_samples detect thr g =
      ([''Using ReferenceImputation, setting m_samples = 1''],
       snd (permutation_sampling predict imp loss_fn randperm T d batches loader 1 detect thr g)) \<and>
    (\<exists>sc. snd (permutation_sampling predict imp loss_fn randperm T d batches loader m_samples
       detect thr g) = Inr sc) \<and>
    iterated_sampling predict imp loss_fn sampler T1 d batches loaders m_samples detect thr g =
      ([''Using ReferenceImputation, setting m_samples = 1''],
       snd (iterated_sampling predict imp loss_fn sampler T1 d batches loaders 1 detect thr g)) \<and>
    (\<exists>rows. snd (iterated_sampling predict imp loss_fn sampler T1 d batches loaders m_samples
       detect thr g) = Inr rows)"
proof -
  have cl: "clamp_m_samples imp m_samples = (1, [''Using ReferenceImputation, setting m_samples = 1''])"
    using ref neq by (simp add: clamp_m_samples_def)
  have cl1: "clamp_m_samples imp 1 = (1, [])"
    by (simp add: clamp_m_samples_def)
  have mpos: "0 < fst (clamp_m_samples imp m_samples)" using cl by simp
  have a: "permutation_sampling predict imp loss_fn randperm T d batches loader m_samples detect thr g =
      ([''Using ReferenceImputation, setting m_samples = 1''],
       snd (permutation_sampling predict imp loss_fn randperm T d batches loader 1 detect thr g))"
    using mod cl cl1 by (simp add: permutation_sampling_def)
  have b: "\<exists>sc. snd (permutation_sampling predict imp loss_fn randperm T d batches loader m_samples
       detect thr g) = Inr sc"
    by (rule permutation_sampling_ok[OF mod mpos shape var])
  have c: "iterated_sampling predict imp loss_fn sampler T1 d batches loaders m_samples detect thr g =
      ([''Using ReferenceImputation, setting m_samples = 1''],
       snd (iterated_sampling predict imp loss_fn sampler T1 d batches loaders 1 detect thr g))"
    using mod cl cl1 by (simp add: iterated_sampling_def)
  have e: "\<exists>rows. snd (iterated_sampling predict imp loss_fn sampler T1 d batches loaders m_samples
       detect thr g) = Inr rows"
    by (rule iterated_sampling_ok[OF mod mpos shape d])
  show ?thesis using cl a b c e by (intro conjI)
qed



theorem reference_imputation_clamps_m_samples_witness:
  "permutation_sampling ex_predict ex_imp ex_loss ex_randperm ex_tracker 2 ex_near_zero ex_loader 5
     False (1 / 100) 0 =
     ([''Using ReferenceImputation, setting m_samples = 1''],
      Inr [[[5, 4]], [[0, 0]], [[- 1, - 3]]]) \<and>
   iterated_sampling ex_predict ex_imp ex_loss ex_sampler ex_tracker1 2 ex_near_zero
     (\<lambda>ind. ex_loader) 5 True (1 / 100) 0 =
     ([''Using ReferenceImputation, setting m_samples = 1''], Inr [[[5]], [[4]]])"
proof -
  have a: "is_module ex_imp" "is_reference ex_imp" by (simp_all add: ex_imp_def)
  have b: "(5 :: nat) \<noteq> 1" by simp
  have var: "\<forall>tr. tracker_var ex_tracker tr \<noteq> []" by (simp add: ex_tracker_def)
  have d: "0 < (2 :: nat)" by simp
  note t = reference_imputation_clamps_m_samples[OF a b ex_shape var d,
      of ex_loss ex_randperm ex_near_zero ex_loader _ "1 / 100" 0 ex_sampler ex_tracker1
         "\<lambda>ind. ex_loader"]
  from t[of False] have p: "permutation_sampling ex_predict ex_imp ex_loss ex_randperm ex_tracker 2
     ex_near_zero ex_loader 5 False (1 / 100) 0 =
     ([''Using ReferenceImputation, setting m_samples = 1''],
      Inr [[[5, 4]], [[0, 0]], [[- 1, - 3]]])"
    using ex_perm_run5 by simp
  from t[of True] have i: "iterated_sampling ex_predict ex_imp ex_loss ex_sampler ex_tracker1 2
     ex_near_zero (\<lambda>ind. ex_loader) 5 True (1 / 100) 0 =
     ([''Using ReferenceImputation, setting m_samples = 1''], Inr [[[5]], [[4]]])"
    using ex_iter_run by simp
  show ?thesis using p i by (intro conjI)
qed

text \<open>
  C2. \<^verbatim>\<open>estimate_total\<close> makes two passes over the same batches and returns the marginal
  loss minus the mean loss: the mean loss is the running mean, by the size-weighted
  incremental rule, of the batch means of the loss of the model's predictions; the
  marginal prediction is the running mean, by the same rule, of the batch mean
  predictions; and the marginal loss is the running mean of the batch means of the loss
  of predicting the marginal prediction for every example. This is for batches that are
  not empty and carry one label per example, a model that returns one row of \<open>k\<close>
  outputs per example and a loss with one entry per label.
\<close>

theorem estimate_total_is_marginal_minus_mean:
  assumes wf: "\<forall>b \<in> set batches. fst b \<noteq> [] \<and> length (snd b) = length (fst b)"
    and pr: "\<forall>X. length (predict X) = length X"
    and pw: "\<forall>X. \<forall>row \<in> set (predict X). length row = k"
    and lf: "\<forall>p yy. length (loss_fn p yy) = length yy"
  shows "estimate_total predict loss_fn batches =
    Inr (Some (spec_marginal_loss predict loss_fn k batches - spec_mean_loss predict loss_fn batches))"
  using estimate_total_refines[OF wf pr pw lf] by (simp add: spec_total_def)

theorem estimate_total_is_marginal_minus_mean_witness:
  "estimate_total ex_predict ex_loss ex_near_zero =
     Inr (Some (spec_marginal_loss ex_predict ex_loss 1 ex_near_zero
                - spec_mean_loss ex_predict ex_loss ex_near_zero)) \<and>
   spec_mean_loss ex_predict ex_loss ex_near_zero = 1 / 10000 \<and>
   spec_marginal_loss ex_predict ex_loss 1 ex_near_zero = 0"
proof -
  have a: "spec_mean_loss ex_predict ex_loss ex_near_zero = 1 / 10000"
    by (simp add: spec_mean_loss_def spec_mean_def ex_near_zero_def ex_predict_def ex_loss_def
        eval_nat_numeral)
  have b: "spec_marginal_loss ex_predict ex_loss 1 ex_near_zero = 0"
    by (simp add: spec_marginal_loss_def spec_marginal_pred_def spec_mean_row_def spec_mean_def
        ex_near_zero_def ex_predict_def ex_loss_def eval_nat_numeral)
  from estimate_total_is_marginal_minus_mean[OF ex_near_zero_wf ex_predict_shape ex_predict_width
      ex_loss_length]
  show ?thesis using a b by simp
qed





end
